theory Spec2Isabelle
  imports Main
begin

section \<open>Outcomes of a call\<close>

text \<open>
  The Python code raises exceptions and waits on a non-reentrant \<^verbatim>\<open>threading.Lock\<close>.
  Every modelled call therefore ends in one of three ways, each carrying the state the
  call leaves behind: it returns a value, it raises, or it waits on a mutex that is
  already held (and so does not return unless another thread releases the mutex).
\<close>

datatype error = KeyError | FileNotFoundError | Exception string

datatype ('a, 's) outcome = Returns 'a 's | Raises error 's | Blocks 's

section \<open>The compactor registry (\<^verbatim>\<open>lmcache/compactor/__init__.py\<close>)\<close>

text \<open>
  \<^verbatim>\<open>H2OCompactor()\<close> and \<^verbatim>\<open>SinkCompactor()\<close> allocate objects. The registry stores
  references, so the model keeps an object store (a list, the address of an object being
  its index) and the class-level dictionary \<^verbatim>\<open>_instances\<close> from identifiers to addresses.
\<close>

datatype compactor = H2OCompactor | SinkCompactor

record builder =
  objects :: "compactor list"
  instances :: "string \<rightharpoonup> nat"

definition new_object :: "compactor \<Rightarrow> builder \<Rightarrow> nat \<times> builder" where
  "new_object c B = (length (objects B), B\<lparr>objects := objects B @ [c]\<rparr>)"

definition get_or_create :: "builder \<Rightarrow> string \<Rightarrow> string \<Rightarrow> (nat, builder) outcome" where
  "get_or_create B instance_id compactor_type =
     (if instance_id \<notin> dom (instances B) then
        (if compactor_type = ''H2O'' then
           (let (compactor, B1) = new_object H2OCompactor B
            in Returns compactor (B1\<lparr>instances := (instances B1)(instance_id \<mapsto> compactor)\<rparr>))
         else if compactor_type = ''Sink'' then
           (let (compactor, B1) = new_object SinkCompactor B
            in Returns compactor (B1\<lparr>instances := (instances B1)(instance_id \<mapsto> compactor)\<rparr>))
         else Raises (Exception (''Compactor type '' @ compactor_type @ '' not supported'')) B)
      else (case instances B instance_id of
              Some compactor \<Rightarrow> Returns compactor B
            | None \<Rightarrow> Raises KeyError B))"

definition builder_get :: "builder \<Rightarrow> string \<Rightarrow> (nat option, builder) outcome" where
  "builder_get B instance_id = Returns (instances B instance_id) B"

text \<open>Any later use of the registry: a sequence of calls, each leaving its state behind.\<close>

datatype builder_call = GetOrCreate string string | Get string

fun state_of :: "('a, 's) outcome \<Rightarrow> 's" where
  "state_of (Returns _ s) = s"
| "state_of (Raises _ s) = s"
| "state_of (Blocks s) = s"

fun builder_step :: "builder \<Rightarrow> builder_call \<Rightarrow> builder" where
  "builder_step B (GetOrCreate i t) = state_of (get_or_create B i t)"
| "builder_step B (Get i) = state_of (builder_get B i)"

definition builder_run :: "builder \<Rightarrow> builder_call list \<Rightarrow> builder" where
  "builder_run B cs = foldl builder_step B cs"

section \<open>The catalog: Python's \<^verbatim>\<open>OrderedDict\<close>\<close>

text \<open>
  An \<^verbatim>\<open>OrderedDict\<close> is an association list in insertion order, oldest entry first,
  with at most one entry per key. Assigning to a key that is present replaces its value
  where it stands; assigning to a new key appends it.
\<close>

type_synonym ('k, 'l) ordered_dict = "('k \<times> 'l) list"

definition od_keys :: "('k, 'l) ordered_dict \<Rightarrow> 'k list" where
  "od_keys d = map fst d"

definition od_contains :: "'k \<Rightarrow> ('k, 'l) ordered_dict \<Rightarrow> bool" where
  "od_contains key d = (key \<in> set (od_keys d))"

definition od_delete :: "'k \<Rightarrow> ('k, 'l) ordered_dict \<Rightarrow> ('k, 'l) ordered_dict" where
  "od_delete key d = filter (\<lambda>e. fst e \<noteq> key) d"

fun od_setitem :: "'k \<Rightarrow> 'l \<Rightarrow> ('k, 'l) ordered_dict \<Rightarrow> ('k, 'l) ordered_dict" where
  "od_setitem key v [] = [(key, v)]"
| "od_setitem key v (e # d) = (if fst e = key then (key, v) # d else e # od_setitem key v d)"

definition od_move_to_end :: "'k \<Rightarrow> ('k, 'l) ordered_dict \<Rightarrow> ('k, 'l) ordered_dict" where
  "od_move_to_end key d =
     (case map_of d key of None \<Rightarrow> d | Some v \<Rightarrow> od_delete key d @ [(key, v)])"

section \<open>The evictor\<close>

text \<open>
  Modelled from the spec: \<^verbatim>\<open>PutStatus\<close> is declared in
  \<^verbatim>\<open>lmcache/storage_backend/evictor/base_evictor.py\<close>, which is not among the sources.
  The spec gives it two values, Admitted and Rejected; the backends only ever compare it
  with \<^verbatim>\<open>PutStatus.ILLEGAL\<close>.
\<close>

datatype PutStatus = LEGAL | ILLEGAL

text \<open>
  The class \<^verbatim>\<open>LRUEvictor\<close> is not among the sources either. Its admission routine
  \<^verbatim>\<open>update_on_put(dict, chunk)\<close> is a parameter of the backends below: any function
  from the catalog and the new payload to the keys to evict and a status.
\<close>

type_synonym ('k, 'l, 'v) update_on_put = "('k, 'l) ordered_dict \<Rightarrow> 'v \<Rightarrow> 'k list \<times> PutStatus"

text \<open>
  Modelled from the spec: \<^verbatim>\<open>LRUEvictor.update_on_get\<close> is missing. The spec's LRU
  variant moves the key to the most-recently-used end of the catalog's own ordering and does
  nothing for a key that is not present.
\<close>

definition update_on_get :: "'k \<Rightarrow> ('k, 'l) ordered_dict \<Rightarrow> ('k, 'l) ordered_dict" where
  "update_on_get key d = od_move_to_end key d"

text \<open>
  Modelled from the spec: an LRU admission routine, used where a concrete evictor is needed.
  The capacity metric is a construction parameter (\<open>capacity\<close>, the size \<open>vsize\<close> of a
  payload and the size \<open>lsize\<close> of a stored location). A payload larger than the whole
  capacity is rejected with an empty eviction list; otherwise the oldest keys are evicted,
  as few as make room.
\<close>

fun lru_evict_keys :: "('l \<Rightarrow> nat) \<Rightarrow> nat \<Rightarrow> ('k, 'l) ordered_dict \<Rightarrow> 'k list" where
  "lru_evict_keys lsize room [] = []"
| "lru_evict_keys lsize room (e # d) =
     (if sum_list (map (lsize \<circ> snd) (e # d)) \<le> room then []
      else fst e # lru_evict_keys lsize room d)"

definition lru_update_on_put ::
  "nat \<Rightarrow> ('v \<Rightarrow> nat) \<Rightarrow> ('l \<Rightarrow> nat) \<Rightarrow> ('k, 'l, 'v) update_on_put" where
  "lru_update_on_put capacity vsize lsize d kv =
     (if capacity < vsize kv then ([], ILLEGAL)
      else (lru_evict_keys lsize (capacity - vsize kv) d, LEGAL))"

section \<open>Backend state\<close>

text \<open>
  The put queue holds \<^verbatim>\<open>(key, value)\<close> tuples and end signals. \<open>update_lock\<close> is
  \<open>True\<close> while the \<^verbatim>\<open>threading.Lock\<close> is held; \<open>put_thread_alive\<close> is
  \<^verbatim>\<open>put_thread.is_alive()\<close>. A payload stands for the content of a tensor, which
  \<^verbatim>\<open>.to(device)\<close> does not change.
\<close>

datatype ('k, 'v) item = Put 'k 'v | LocalBackendEndSignal

record ('k, 'l, 'v) backend =
  dict :: "('k, 'l) ordered_dict"
  put_queue :: "('k, 'v) item list"
  update_lock :: bool
  put_thread_alive :: bool

text \<open>
  The disk backend adds its base path and the files it can see: a map from path names to the
  tensor stored under the field \<^verbatim>\<open>kv_chunk\<close>.
\<close>

record ('k, 'v) disk_backend = "('k, string, 'v) backend" +
  path :: string
  files :: "string \<rightharpoonup> 'v"

text \<open>The loop \<^verbatim>\<open>for evict_key in evict_keys: self.remove(evict_key)\<close>.\<close>

fun evict_caches :: "('k \<Rightarrow> 's \<Rightarrow> (unit, 's) outcome) \<Rightarrow> 'k list \<Rightarrow> 's \<Rightarrow> (unit, 's) outcome" where
  "evict_caches remove [] s = Returns () s"
| "evict_caches remove (evict_key # evict_keys) s =
     (case remove evict_key s of
        Returns _ s' \<Rightarrow> evict_caches remove evict_keys s'
      | Raises e s' \<Rightarrow> Raises e s'
      | Blocks s' \<Rightarrow> Blocks s')"

section \<open>The memory backend (\<^verbatim>\<open>LMCLocalBackend\<close>)\<close>

type_synonym ('k, 'v) local_backend = "('k, 'v, 'v) backend"

definition LMCLocalBackend_contains :: "'k \<Rightarrow> ('k, 'v) local_backend \<Rightarrow> bool" where
  "LMCLocalBackend_contains key s = od_contains key (dict s)"

definition LMCLocalBackend_remove ::
  "'k \<Rightarrow> ('k, 'v) local_backend \<Rightarrow> (unit, ('k, 'v) local_backend) outcome" where
  "LMCLocalBackend_remove key s =
     (if od_contains key (dict s) then Returns () (s\<lparr>dict := od_delete key (dict s)\<rparr>)
      else Raises KeyError s)"

definition LMCLocalBackend_put_nonblocking ::
  "('k, 'v, 'v) update_on_put \<Rightarrow> 'k \<Rightarrow> 'v \<Rightarrow> ('k, 'v) local_backend
     \<Rightarrow> (unit, ('k, 'v) local_backend) outcome" where
  "LMCLocalBackend_put_nonblocking evictor_update_on_put key kv_chunk s =
     (let kv_chunk_local = kv_chunk in
      if update_lock s then Blocks s
      else
        let s1 = s\<lparr>update_lock := True\<rparr>;
            (evict_keys, put_status) = evictor_update_on_put (dict s1) kv_chunk_local
        in if put_status = ILLEGAL then Returns () s1
           else (case evict_caches LMCLocalBackend_remove evict_keys s1 of
                   Returns _ s2 \<Rightarrow>
                     Returns () (s2\<lparr>dict := od_setitem key kv_chunk_local (dict s2),
                                    update_lock := False\<rparr>)
                 | Raises e s2 \<Rightarrow> Raises e s2
                 | Blocks s2 \<Rightarrow> Blocks s2))"

definition LMCLocalBackend_put_blocking ::
  "('k, 'v, 'v) update_on_put \<Rightarrow> 'k \<Rightarrow> 'v \<Rightarrow> ('k, 'v) local_backend
     \<Rightarrow> (unit, ('k, 'v) local_backend) outcome" where
  "LMCLocalBackend_put_blocking evictor_update_on_put key kv_chunk s =
     (let kv_chunk_local = kv_chunk;
          (evict_keys, put_status) = evictor_update_on_put (dict s) kv_chunk_local
      in if put_status = ILLEGAL then Returns () s
         else (case evict_caches LMCLocalBackend_remove evict_keys s of
                 Returns _ s2 \<Rightarrow>
                   Returns () (s2\<lparr>dict := od_setitem key kv_chunk_local (dict s2)\<rparr>)
               | Raises e s2 \<Rightarrow> Raises e s2
               | Blocks s2 \<Rightarrow> Blocks s2))"

definition LMCLocalBackend_put ::
  "('k, 'v, 'v) update_on_put \<Rightarrow> 'k \<Rightarrow> 'v \<Rightarrow> bool \<Rightarrow> ('k, 'v) local_backend
     \<Rightarrow> (unit, ('k, 'v) local_backend) outcome" where
  "LMCLocalBackend_put evictor_update_on_put key kv_chunk blocking s =
     (if blocking then LMCLocalBackend_put_blocking evictor_update_on_put key kv_chunk s
      else Returns () (s\<lparr>put_queue := put_queue s @ [Put key kv_chunk]\<rparr>))"

definition LMCLocalBackend_get ::
  "'k \<Rightarrow> ('k, 'v) local_backend \<Rightarrow> ('v option, ('k, 'v) local_backend) outcome" where
  "LMCLocalBackend_get key s =
     (case map_of (dict s) key of
        None \<Rightarrow> Returns None s
      | Some kv_chunk \<Rightarrow>
          if update_lock s then Blocks s
          else Returns (Some kv_chunk) (s\<lparr>dict := update_on_get key (dict s)\<rparr>))"

lemma evict_caches_local_put_queue:
  "evict_caches LMCLocalBackend_remove ks s = Returns u s' \<Longrightarrow> put_queue s' = put_queue s"
proof (induction ks arbitrary: s)
  case Nil
  then show ?case by simp
next
  case (Cons k ks)
  then show ?case
    by (auto simp: LMCLocalBackend_remove_def split: if_splits)
qed

lemma put_nonblocking_put_queue:
  "LMCLocalBackend_put_nonblocking up key kv s = Returns u s' \<Longrightarrow> put_queue s' = put_queue s"
  by (auto simp: LMCLocalBackend_put_nonblocking_def Let_def
      split: if_splits prod.splits outcome.splits dest: evict_caches_local_put_queue)

text \<open>
  The worker thread. \<^verbatim>\<open>put_queue.get()\<close> takes the oldest item; on an empty queue the
  worker waits for the next \<^verbatim>\<open>put\<close>, which is the outcome \<open>Blocks\<close> with nothing left
  to do. An exception in the thread ends it.
\<close>

function LMCLocalBackend_put_worker ::
  "('k, 'v, 'v) update_on_put \<Rightarrow> ('k, 'v) local_backend \<Rightarrow> (unit, ('k, 'v) local_backend) outcome" where
  "LMCLocalBackend_put_worker evictor_update_on_put s =
     (case put_queue s of
        [] \<Rightarrow> Blocks s
      | LocalBackendEndSignal # rest \<Rightarrow> Returns () (s\<lparr>put_queue := rest, put_thread_alive := False\<rparr>)
      | Put key val # rest \<Rightarrow>
          (case LMCLocalBackend_put_nonblocking evictor_update_on_put key val (s\<lparr>put_queue := rest\<rparr>) of
             Returns _ s' \<Rightarrow> LMCLocalBackend_put_worker evictor_update_on_put s'
           | Raises e s' \<Rightarrow> Raises e (s'\<lparr>put_thread_alive := False\<rparr>)
           | Blocks s' \<Rightarrow> Blocks s'))"
  by pat_completeness auto
termination
proof (relation "measure (\<lambda>(up, s). length (put_queue s))")
  show "wf (measure (\<lambda>(up, s). length (put_queue s)))" by simp
next
  fix up :: "('k, 'v, 'v) update_on_put" and s :: "('k, 'v) local_backend"
    and x21 x22 x11 x12 x1 and x2 :: "('k, 'v) local_backend"
  assume q: "put_queue s = x21 # x22" and "x21 = Put x11 x12"
    and r: "LMCLocalBackend_put_nonblocking up x11 x12 (s\<lparr>put_queue := x22\<rparr>) = Returns x1 x2"
  from put_nonblocking_put_queue [OF r] q
  show "((up, x2), (up, s)) \<in> measure (\<lambda>(up, s). length (put_queue s))" by simp
qed

text \<open>
  \<^verbatim>\<open>close\<close>: \<^verbatim>\<open>join\<close> returns when the worker thread has ended, whether it left its loop
  or died of an exception, and does not return while the worker waits.
\<close>

definition LMCLocalBackend_close ::
  "('k, 'v, 'v) update_on_put \<Rightarrow> ('k, 'v) local_backend \<Rightarrow> (unit, ('k, 'v) local_backend) outcome" where
  "LMCLocalBackend_close evictor_update_on_put s =
     (if put_thread_alive s then
        (case LMCLocalBackend_put_worker evictor_update_on_put
                (s\<lparr>put_queue := put_queue s @ [LocalBackendEndSignal]\<rparr>) of
           Returns _ s' \<Rightarrow> Returns () s'
         | Raises e s' \<Rightarrow> Returns () s'
         | Blocks s' \<Rightarrow> Blocks s')
      else Returns () s)"

section \<open>The disk backend (\<^verbatim>\<open>LMCLocalDiskBackend\<close>)\<close>

text \<open>
  \<^verbatim>\<open>CacheEngineKey\<close> (in \<^verbatim>\<open>lmcache/utils.py\<close>) is not among the sources: its method
  \<^verbatim>\<open>to_string\<close> is a parameter. \<^verbatim>\<open>str.replace("/", "-")\<close> replaces every slash; a slash
  is one byte and no part of any other UTF-8 character, so the replacement is a map over
  the bytes.
\<close>

definition replace_slash :: "string \<Rightarrow> string" where
  "replace_slash str = map (\<lambda>c. if c = CHR ''/'' then CHR ''-'' else c) str"

definition key_to_path :: "string \<Rightarrow> ('k \<Rightarrow> string) \<Rightarrow> 'k \<Rightarrow> string" where
  "key_to_path self_path to_string key = self_path @ replace_slash (to_string key) @ ''.pt''"

definition LMCLocalDiskBackend_contains :: "'k \<Rightarrow> ('k, 'v) disk_backend \<Rightarrow> bool" where
  "LMCLocalDiskBackend_contains key s = od_contains key (dict s)"

text \<open>
  \<^verbatim>\<open>remove\<close> takes the mutex, reads and pops the entry (a \<^verbatim>\<open>KeyError\<close> here leaves the
  mutex held), releases the mutex and deletes the file; \<^verbatim>\<open>os.remove\<close> raises when there
  is no such file.
\<close>

definition LMCLocalDiskBackend_remove ::
  "'k \<Rightarrow> ('k, 'v) disk_backend \<Rightarrow> (unit, ('k, 'v) disk_backend) outcome" where
  "LMCLocalDiskBackend_remove key s =
     (if update_lock s then Blocks s
      else (case map_of (dict s) key of
              None \<Rightarrow> Raises KeyError (s\<lparr>update_lock := True\<rparr>)
            | Some p \<Rightarrow>
                (let s1 = s\<lparr>dict := od_delete key (dict s)\<rparr>
                 in case files s1 p of
                      None \<Rightarrow> Raises FileNotFoundError s1
                    | Some _ \<Rightarrow> Returns () (s1\<lparr>files := (files s1)(p := None)\<rparr>))))"

definition LMCLocalDiskBackend_put_blocking ::
  "('k \<Rightarrow> string) \<Rightarrow> ('k, string, 'v) update_on_put \<Rightarrow> 'k \<Rightarrow> 'v \<Rightarrow> ('k, 'v) disk_backend
     \<Rightarrow> (unit, ('k, 'v) disk_backend) outcome" where
  "LMCLocalDiskBackend_put_blocking to_string evictor_update_on_put key kv_chunk s =
     (let p = key_to_path (path s) to_string key;
          (evict_keys, put_status) = evictor_update_on_put (dict s) kv_chunk
      in if put_status = ILLEGAL then Returns () s
         else (case evict_caches LMCLocalDiskBackend_remove evict_keys s of
                 Returns _ s1 \<Rightarrow>
                   (let s2 = s1\<lparr>files := (files s1)(p \<mapsto> kv_chunk)\<rparr>
                    in if update_lock s2 then Blocks s2
                       else Returns () (s2\<lparr>dict := od_setitem key p (dict s2)\<rparr>))
               | Raises e s1 \<Rightarrow> Raises e s1
               | Blocks s1 \<Rightarrow> Blocks s1))"

definition LMCLocalDiskBackend_put ::
  "('k \<Rightarrow> string) \<Rightarrow> ('k, string, 'v) update_on_put \<Rightarrow> 'k \<Rightarrow> 'v \<Rightarrow> bool \<Rightarrow> ('k, 'v) disk_backend
     \<Rightarrow> (unit, ('k, 'v) disk_backend) outcome" where
  "LMCLocalDiskBackend_put to_string evictor_update_on_put key kv_chunk blocking s =
     (if blocking then LMCLocalDiskBackend_put_blocking to_string evictor_update_on_put key kv_chunk s
      else Returns () (s\<lparr>put_queue := put_queue s @ [Put key kv_chunk]\<rparr>))"

definition LMCLocalDiskBackend_get ::
  "'k \<Rightarrow> ('k, 'v) disk_backend \<Rightarrow> ('v option, ('k, 'v) disk_backend) outcome" where
  "LMCLocalDiskBackend_get key s =
     (if \<not> od_contains key (dict s) then Returns None s
      else (case map_of (dict s) key of
              None \<Rightarrow> Raises KeyError s
            | Some p \<Rightarrow>
                (let s1 = s\<lparr>dict := update_on_get key (dict s)\<rparr>
                 in case files s1 p of
                      None \<Rightarrow> Raises FileNotFoundError s1
                    | Some kv_chunk \<Rightarrow> Returns (Some kv_chunk) s1)))"

lemma evict_caches_disk_put_queue:
  "evict_caches LMCLocalDiskBackend_remove ks s = Returns u s' \<Longrightarrow> put_queue s' = put_queue s"
proof (induction ks arbitrary: s)
  case Nil
  then show ?case by simp
next
  case (Cons k ks)
  then show ?case
    by (auto simp: LMCLocalDiskBackend_remove_def Let_def split: if_splits option.splits)
qed

lemma disk_put_blocking_put_queue:
  "LMCLocalDiskBackend_put_blocking ts up key kv s = Returns u s' \<Longrightarrow> put_queue s' = put_queue s"
  by (auto simp: LMCLocalDiskBackend_put_blocking_def Let_def
      split: if_splits prod.splits outcome.splits dest: evict_caches_disk_put_queue)

function LMCLocalDiskBackend_put_worker ::
  "('k \<Rightarrow> string) \<Rightarrow> ('k, string, 'v) update_on_put \<Rightarrow> ('k, 'v) disk_backend
     \<Rightarrow> (unit, ('k, 'v) disk_backend) outcome" where
  "LMCLocalDiskBackend_put_worker to_string evictor_update_on_put s =
     (case put_queue s of
        [] \<Rightarrow> Blocks s
      | LocalBackendEndSignal # rest \<Rightarrow> Returns () (s\<lparr>put_queue := rest, put_thread_alive := False\<rparr>)
      | Put key val # rest \<Rightarrow>
          (case LMCLocalDiskBackend_put_blocking to_string evictor_update_on_put key val
                  (s\<lparr>put_queue := rest\<rparr>) of
             Returns _ s' \<Rightarrow> LMCLocalDiskBackend_put_worker to_string evictor_update_on_put s'
           | Raises e s' \<Rightarrow> Raises e (s'\<lparr>put_thread_alive := False\<rparr>)
           | Blocks s' \<Rightarrow> Blocks s'))"
  by pat_completeness auto
termination
proof (relation "measure (\<lambda>(ts, up, s). length (put_queue s))")
  show "wf (measure (\<lambda>(ts, up, s). length (put_queue s)))" by simp
next
  fix ts :: "'k \<Rightarrow> string" and up :: "('k, string, 'v) update_on_put"
    and s :: "('k, 'v) disk_backend" and x21 x22 x11 x12 x1 and x2 :: "('k, 'v) disk_backend"
  assume q: "put_queue s = x21 # x22" and "x21 = Put x11 x12"
    and r: "LMCLocalDiskBackend_put_blocking ts up x11 x12 (s\<lparr>put_queue := x22\<rparr>) = Returns x1 x2"
  from disk_put_blocking_put_queue [OF r] q
  show "((ts, up, x2), (ts, up, s)) \<in> measure (\<lambda>(ts, up, s). length (put_queue s))" by simp
qed

definition LMCLocalDiskBackend_close ::
  "('k \<Rightarrow> string) \<Rightarrow> ('k, string, 'v) update_on_put \<Rightarrow> ('k, 'v) disk_backend
     \<Rightarrow> (unit, ('k, 'v) disk_backend) outcome" where
  "LMCLocalDiskBackend_close to_string evictor_update_on_put s =
     (if put_thread_alive s then
        (case LMCLocalDiskBackend_put_worker to_string evictor_update_on_put
                (s\<lparr>put_queue := put_queue s @ [LocalBackendEndSignal]\<rparr>) of
           Returns _ s' \<Rightarrow> Returns () s'
         | Raises e s' \<Rightarrow> Returns () s'
         | Blocks s' \<Rightarrow> Blocks s')
      else Returns () s)"

section \<open>Example states\<close>

text \<open>
  Two small backends and LRU evictors with a capacity of two bytes, used to run the
  operations on concrete inputs. Keys are their own canonical strings.
\<close>

definition example_memory :: "(string, string) local_backend" where
  "example_memory =
     \<lparr>dict = [(''k1'', ''ab'')], put_queue = [], update_lock = False, put_thread_alive = True\<rparr>"

definition example_disk :: "(string, string) disk_backend" where
  "example_disk =
     \<lparr>dict = [(''k1'', ''/c/k1.pt'')], put_queue = [], update_lock = False,
       put_thread_alive = True, path = ''/c/'', files = [''/c/k1.pt'' \<mapsto> ''ab'']\<rparr>"

definition example_lru_memory :: "(string, string, string) update_on_put" where
  "example_lru_memory = lru_update_on_put 2 length length"

definition example_lru_disk :: "(string, string, string) update_on_put" where
  "example_lru_disk = lru_update_on_put 2 length (\<lambda>p. 2)"

lemmas example_defs = example_memory_def example_disk_def example_lru_memory_def
  example_lru_disk_def lru_update_on_put_def

lemmas eval_defs = LMCLocalBackend_put_blocking_def LMCLocalBackend_put_nonblocking_def
  LMCLocalBackend_remove_def LMCLocalBackend_get_def
  LMCLocalDiskBackend_put_blocking_def LMCLocalDiskBackend_remove_def LMCLocalDiskBackend_get_def
  od_contains_def od_keys_def od_delete_def od_move_to_end_def update_on_get_def
  key_to_path_def replace_slash_def Let_def


definition example_memory3 :: "(string, string) local_backend" where
  "example_memory3 =
     \<lparr>dict = [(''k0'', ''aaa''), (''k1'', ''ab''), (''k2'', ''c'')], put_queue = [],
       update_lock = False, put_thread_alive = True\<rparr>"

definition example_disk3 :: "(string, string) disk_backend" where
  "example_disk3 =
     \<lparr>dict = [(''k0'', ''/c/k0.pt''), (''k1'', ''/c/k1.pt''), (''k2'', ''/c/k2.pt'')],
       put_queue = [], update_lock = False, put_thread_alive = True, path = ''/c/'',
       files = [''/c/k0.pt'' \<mapsto> ''aaa'', ''/c/k1.pt'' \<mapsto> ''ab'', ''/c/k2.pt'' \<mapsto> ''c'']\<rparr>"


section \<open>Consistency of catalog and files on the disk backend\<close>

text \<open>
  The catalog and the files agree when the catalog has one entry per key, every entry stores
  the path derived from its key, and a key is in the catalog exactly when the file at its
  derived path exists.
\<close>

definition catalog_consistent :: "('k \<Rightarrow> string) \<Rightarrow> ('k, 'v) disk_backend \<Rightarrow> bool" where
  "catalog_consistent to_string s \<longleftrightarrow>
     distinct (od_keys (dict s))
     \<and> (\<forall>e \<in> set (dict s). snd e = key_to_path (path s) to_string (fst e))
     \<and> (\<forall>k. od_contains k (dict s) \<longleftrightarrow> key_to_path (path s) to_string k \<in> dom (files s))"

text \<open>
  Operations on the disk backend, one after the other. An operation that returns or raises
  leaves a state behind; one that waits on the mutex has not ended, and the run stops there.
\<close>

datatype ('k, 'v) disk_op = OpPut 'k 'v | OpRemove 'k | OpGet 'k

fun after :: "('a, 's) outcome \<Rightarrow> 's option" where
  "after (Returns _ s) = Some s"
| "after (Raises _ s) = Some s"
| "after (Blocks _) = None"

fun disk_apply ::
  "('k \<Rightarrow> string) \<Rightarrow> ('k, string, 'v) update_on_put \<Rightarrow> ('k, 'v) disk_op \<Rightarrow> ('k, 'v) disk_backend
     \<Rightarrow> ('k, 'v) disk_backend option" where
  "disk_apply ts up (OpPut k v) s = after (LMCLocalDiskBackend_put_blocking ts up k v s)"
| "disk_apply ts up (OpRemove k) s = after (LMCLocalDiskBackend_remove k s)"
| "disk_apply ts up (OpGet k) s = after (LMCLocalDiskBackend_get k s)"

fun disk_run ::
  "('k \<Rightarrow> string) \<Rightarrow> ('k, string, 'v) update_on_put \<Rightarrow> ('k, 'v) disk_op list \<Rightarrow> ('k, 'v) disk_backend
     \<Rightarrow> ('k, 'v) disk_backend option" where
  "disk_run ts up [] s = Some s"
| "disk_run ts up (op # ops) s =
     (case disk_apply ts up op s of None \<Rightarrow> None | Some s' \<Rightarrow> disk_run ts up ops s')"

definition example_disk_empty :: "('k, string) disk_backend" where
  "example_disk_empty =
     \<lparr>dict = [], put_queue = [], update_lock = False, put_thread_alive = True,
       path = ''/c/'', files = Map.empty\<rparr>"

definition example_to_string :: "nat \<Rightarrow> string" where
  "example_to_string n = replicate n (CHR ''k'')"


section \<open>Puts applied one after the other\<close>

text \<open>
  The reference for the worker: the payloads of a queue applied by blocking puts, in order.
  For the memory backend every item must be admitted and return; for the disk backend
  every put must return.
\<close>

fun map_state :: "('s \<Rightarrow> 't) \<Rightarrow> ('a, 's) outcome \<Rightarrow> ('a, 't) outcome" where
  "map_state f (Returns x s) = Returns x (f s)"
| "map_state f (Raises e s) = Raises e (f s)"
| "map_state f (Blocks s) = Blocks (f s)"

fun puts_blocking ::
  "('k, 'v, 'v) update_on_put \<Rightarrow> ('k \<times> 'v) list \<Rightarrow> ('k, 'v) local_backend
     \<Rightarrow> ('k, 'v) local_backend option" where
  "puts_blocking up [] s = Some s"
| "puts_blocking up ((key, val) # kvs) s =
     (if snd (up (dict s) val) = ILLEGAL then None
      else (case LMCLocalBackend_put_blocking up key val s of
              Returns _ s' \<Rightarrow> puts_blocking up kvs s'
            | Raises e s' \<Rightarrow> None
            | Blocks s' \<Rightarrow> None))"

fun disk_puts_blocking ::
  "('k \<Rightarrow> string) \<Rightarrow> ('k, string, 'v) update_on_put \<Rightarrow> ('k \<times> 'v) list \<Rightarrow> ('k, 'v) disk_backend
     \<Rightarrow> ('k, 'v) disk_backend option" where
  "disk_puts_blocking ts up [] s = Some s"
| "disk_puts_blocking ts up ((key, val) # kvs) s =
     (case LMCLocalDiskBackend_put_blocking ts up key val s of
        Returns _ s' \<Rightarrow> disk_puts_blocking ts up kvs s'
      | Raises e s' \<Rightarrow> None
      | Blocks s' \<Rightarrow> None)"


section \<open>Registry properties\<close>

lemma get_or_create_registered:
  "instances B i = Some a \<Longrightarrow> get_or_create B i t = Returns a B"
  by (simp add: get_or_create_def dom_def)

lemma get_or_create_registers:
  "get_or_create B i t = Returns a B1 \<Longrightarrow> instances B1 i = Some a"
  by (auto simp: get_or_create_def new_object_def Let_def split: if_splits option.splits)

lemma builder_step_keeps:
  "instances B i = Some a \<Longrightarrow> instances (builder_step B c) i = Some a"
proof (cases c)
  case (GetOrCreate j t)
  assume reg: "instances B i = Some a"
  show ?thesis
  proof (cases "j \<in> dom (instances B)")
    case True
    then obtain b where "instances B j = Some b" by auto
    then show ?thesis
      using reg GetOrCreate by (simp add: get_or_create_registered)
  next
    case False
    then have "j \<noteq> i" using reg by auto
    then show ?thesis
      using reg GetOrCreate False
      by (simp add: get_or_create_def new_object_def)
  qed
next
  case (Get j)
  assume "instances B i = Some a"
  then show ?thesis using Get by (simp add: builder_get_def)
qed

lemma builder_run_keeps:
  "instances B i = Some a \<Longrightarrow> instances (builder_run B cs) i = Some a"
  unfolding builder_run_def
  by (induction cs arbitrary: B) (simp_all add: builder_step_keeps)

text \<open>
  C8. Once \<open>get_or_create instance_id p1\<close> has returned an instance, every later
  \<open>get_or_create\<close> for that identifier (after any further registry calls \<open>cs\<close>, and for
  every policy name \<open>p2\<close>, supported or not) returns that same object without raising and
  without changing the registry, \<open>get\<close> returns that same object, and \<open>get\<close> never changes
  the registry.
\<close>

theorem registry_idempotent:
  assumes "get_or_create B instance_id p1 = Returns a B1"
  shows "get_or_create (builder_run B1 cs) instance_id p2 = Returns a (builder_run B1 cs)
       \<and> builder_get (builder_run B1 cs) instance_id = Returns (Some a) (builder_run B1 cs)
       \<and> state_of (builder_get B' j) = B'"
proof -
  have "instances B1 instance_id = Some a"
    using assms by (rule get_or_create_registers)
  then have "instances (builder_run B1 cs) instance_id = Some a"
    by (rule builder_run_keeps)
  then show ?thesis
    by (simp add: get_or_create_registered builder_get_def)
qed

theorem registry_idempotent_witness:
  "get_or_create \<lparr>objects = [], instances = Map.empty\<rparr> ''x'' ''H2O''
     = Returns 0 \<lparr>objects = [H2OCompactor], instances = [''x'' \<mapsto> 0]\<rparr>
   \<and> get_or_create (builder_run \<lparr>objects = [H2OCompactor], instances = [''x'' \<mapsto> 0]\<rparr>
                      [GetOrCreate ''y'' ''Sink'', Get ''z'']) ''x'' ''Other''
     = Returns 0 \<lparr>objects = [H2OCompactor, SinkCompactor], instances = [''x'' \<mapsto> 0, ''y'' \<mapsto> 1]\<rparr>
   \<and> builder_get \<lparr>objects = [H2OCompactor, SinkCompactor], instances = [''x'' \<mapsto> 0, ''y'' \<mapsto> 1]\<rparr> ''x''
     = Returns (Some 0) \<lparr>objects = [H2OCompactor, SinkCompactor], instances = [''x'' \<mapsto> 0, ''y'' \<mapsto> 1]\<rparr>"
proof -
  have c: "get_or_create \<lparr>objects = [], instances = Map.empty\<rparr> ''x'' ''H2O''
     = Returns 0 \<lparr>objects = [H2OCompactor], instances = [''x'' \<mapsto> 0]\<rparr>"
    by (simp add: get_or_create_def new_object_def)
  have r: "builder_run \<lparr>objects = [H2OCompactor], instances = [''x'' \<mapsto> 0]\<rparr>
             [GetOrCreate ''y'' ''Sink'', Get ''z'']
           = \<lparr>objects = [H2OCompactor, SinkCompactor], instances = [''x'' \<mapsto> 0, ''y'' \<mapsto> 1]\<rparr>"
    by (simp add: builder_run_def get_or_create_def new_object_def builder_get_def)
  show ?thesis
    using registry_idempotent [OF c, of "[GetOrCreate ''y'' ''Sink'', Get ''z'']" "''Other''"] c r
    by simp
qed

text \<open>
  C9. For an identifier that is not registered and a policy name other than \<open>H2O\<close> and
  \<open>Sink\<close>, \<open>get_or_create\<close> raises, the registry is left as it was, and a following
  \<open>get\<close> finds nothing.
\<close>

theorem unsupported_policy_raises:
  assumes "instances B instance_id = None"
      and "p \<noteq> ''H2O''" and "p \<noteq> ''Sink''"
  shows "get_or_create B instance_id p
           = Raises (Exception (''Compactor type '' @ p @ '' not supported'')) B
       \<and> builder_get (state_of (get_or_create B instance_id p)) instance_id = Returns None B"
  using assms by (simp add: get_or_create_def builder_get_def dom_def)

theorem unsupported_policy_raises_witness:
  "get_or_create \<lparr>objects = [], instances = Map.empty\<rparr> ''x'' ''LRU''
     = Raises (Exception ''Compactor type LRU not supported'') \<lparr>objects = [], instances = Map.empty\<rparr>
   \<and> builder_get (state_of (get_or_create \<lparr>objects = [], instances = Map.empty\<rparr> ''x'' ''LRU'')) ''x''
     = Returns None \<lparr>objects = [], instances = Map.empty\<rparr>"
  using unsupported_policy_raises [of "\<lparr>objects = [], instances = Map.empty\<rparr>" "''x''" "''LRU''"]
  by (simp add: builder_get_def)

section \<open>Properties of the catalog operations\<close>


lemma map_of_od_setitem_same: "map_of (od_setitem key v d) key = Some v"
  by (induction d) auto

lemma map_of_od_setitem_other: "k \<noteq> key \<Longrightarrow> map_of (od_setitem key v d) k = map_of d k"
  by (induction d) auto

lemma od_keys_od_setitem:
  "od_keys (od_setitem key v d) = (if key \<in> set (od_keys d) then od_keys d else od_keys d @ [key])"
  by (induction d) (auto simp: od_keys_def)

lemma evict_caches_local_Returns:
  "evict_caches LMCLocalBackend_remove ks s = Returns u s'
     \<Longrightarrow> s' = s\<lparr>dict := filter (\<lambda>e. fst e \<notin> set ks) (dict s)\<rparr>"
proof (induction ks arbitrary: s)
  case Nil
  then show ?case by simp
next
  case (Cons k ks)
  from Cons.prems obtain s1 where r: "LMCLocalBackend_remove k s = Returns () s1"
    and e: "evict_caches LMCLocalBackend_remove ks s1 = Returns u s'"
    by (auto split: outcome.splits)
  from r have s1: "s1 = s\<lparr>dict := od_delete k (dict s)\<rparr>"
    by (auto simp: LMCLocalBackend_remove_def split: if_splits)
  from Cons.IH [OF e] s1 show ?case
    by (simp add: od_delete_def conj_commute)
qed




lemma local_put_blocking_Returns:
  assumes "LMCLocalBackend_put_blocking up key kv s = Returns u s'"
      and "up (dict s) kv = (evs, st)" and "st \<noteq> ILLEGAL"
  shows "s' = s\<lparr>dict := od_setitem key kv (filter (\<lambda>e. fst e \<notin> set evs) (dict s))\<rparr>"
proof -
  from assms obtain s2 where e: "evict_caches LMCLocalBackend_remove evs s = Returns () s2"
    and s': "s' = s2\<lparr>dict := od_setitem key kv (dict s2)\<rparr>"
    by (auto simp: LMCLocalBackend_put_blocking_def split: outcome.splits)
  from evict_caches_local_Returns [OF e] s' show ?thesis by simp
qed

lemma disk_remove_Returns:
  "LMCLocalDiskBackend_remove k s = Returns u s' \<Longrightarrow>
     \<not> update_lock s \<and> (\<exists>p. map_of (dict s) k = Some p \<and> files s p \<noteq> None
        \<and> s' = s\<lparr>dict := od_delete k (dict s), files := (files s)(p := None)\<rparr>)"
  by (auto simp: LMCLocalDiskBackend_remove_def Let_def split: if_splits option.splits)

lemma evict_caches_disk_Returns:
  "evict_caches LMCLocalDiskBackend_remove ks s = Returns u s'
     \<Longrightarrow> dict s' = filter (\<lambda>e. fst e \<notin> set ks) (dict s)
       \<and> update_lock s' = update_lock s \<and> path s' = path s"
proof (induction ks arbitrary: s)
  case Nil
  then show ?case by simp
next
  case (Cons k ks)
  from Cons.prems obtain s1 where r: "LMCLocalDiskBackend_remove k s = Returns () s1"
    and e: "evict_caches LMCLocalDiskBackend_remove ks s1 = Returns u s'"
    by (auto split: outcome.splits)
  from disk_remove_Returns [OF r] Cons.IH [OF e] show ?case
    by (auto simp: od_delete_def conj_commute)
qed

lemma disk_put_blocking_Returns:
  assumes "LMCLocalDiskBackend_put_blocking ts up key kv s = Returns u s'"
      and "up (dict s) kv = (evs, st)" and "st \<noteq> ILLEGAL"
  shows "\<exists>s1. evict_caches LMCLocalDiskBackend_remove evs s = Returns () s1
          \<and> \<not> update_lock s1
          \<and> s' = s1\<lparr>dict := od_setitem key (key_to_path (path s) ts key) (dict s1),
                      files := (files s1)(key_to_path (path s) ts key \<mapsto> kv)\<rparr>"
  using assms
  by (auto simp: LMCLocalDiskBackend_put_blocking_def Let_def split: outcome.splits if_splits)

section \<open>Backend properties\<close>

text \<open>
  C1. A put whose admission decision is \<open>ILLEGAL\<close> returns without raising and leaves the
  whole backend state as it was: the catalog (which is also the recency order the evictor
  works on), and for the disk backend the files. This holds for the blocking put of the
  memory backend and of the disk backend (\<open>put_blocking\<close>, and \<open>put\<close> with
  \<open>blocking = True\<close>). The queued path of the memory backend
  (\<open>put_nonblocking\<close>) leaves the catalog as it was too; the only field it changes is the
  mutex.
\<close>

theorem rejected_put_changes_nothing:
  "(snd (up_m (dict m) kv) = ILLEGAL \<longrightarrow>
      LMCLocalBackend_put_blocking up_m key kv m = Returns () m
      \<and> LMCLocalBackend_put up_m key kv True m = Returns () m)
   \<and> (snd (up_d (dict d) kv) = ILLEGAL \<longrightarrow>
      LMCLocalDiskBackend_put_blocking to_string up_d key kv d = Returns () d
      \<and> LMCLocalDiskBackend_put to_string up_d key kv True d = Returns () d)
   \<and> (snd (up_m (dict m) kv) = ILLEGAL \<and> \<not> update_lock m \<longrightarrow>
      LMCLocalBackend_put_nonblocking up_m key kv m = Returns () (m\<lparr>update_lock := True\<rparr>))"
  by (simp add: LMCLocalBackend_put_blocking_def LMCLocalDiskBackend_put_blocking_def
      LMCLocalBackend_put_nonblocking_def LMCLocalBackend_put_def LMCLocalDiskBackend_put_def
      Let_def split: prod.splits)

theorem rejected_put_changes_nothing_witness:
  "snd (example_lru_memory (dict example_memory) ''abc'') = ILLEGAL
   \<and> LMCLocalBackend_put_blocking example_lru_memory ''k2'' ''abc'' example_memory
       = Returns () example_memory
   \<and> LMCLocalBackend_put example_lru_memory ''k2'' ''abc'' True example_memory
       = Returns () example_memory
   \<and> snd (example_lru_disk (dict example_disk) ''abc'') = ILLEGAL
   \<and> LMCLocalDiskBackend_put_blocking (\<lambda>k. k) example_lru_disk ''k2'' ''abc'' example_disk
       = Returns () example_disk
   \<and> LMCLocalDiskBackend_put (\<lambda>k. k) example_lru_disk ''k2'' ''abc'' True example_disk
       = Returns () example_disk
   \<and> \<not> update_lock example_memory
   \<and> LMCLocalBackend_put_nonblocking example_lru_memory ''k2'' ''abc'' example_memory
       = Returns () (example_memory\<lparr>update_lock := True\<rparr>)"
  using rejected_put_changes_nothing [of example_lru_memory example_memory "''abc''" "''k2''"
      example_lru_disk example_disk "\<lambda>k. k"]
  by (simp add: example_defs)

text \<open>
  What holds of a put followed by a get. A blocking put that is admitted and returns,
  followed at once by a get of the same key, returns the payload that was put: on the disk
  backend always (its get takes no mutex), on the memory backend when the mutex is free at
  the get (its get takes the mutex).
\<close>

lemma put_then_get_mutex_free:
  "(LMCLocalBackend_put_blocking up_m key kv m = Returns () m'
      \<and> snd (up_m (dict m) kv) \<noteq> ILLEGAL \<and> \<not> update_lock m'
    \<longrightarrow> LMCLocalBackend_get key m' = Returns (Some kv) (m'\<lparr>dict := update_on_get key (dict m')\<rparr>))
 \<and> (LMCLocalDiskBackend_put_blocking to_string up_d key kv d = Returns () d'
      \<and> snd (up_d (dict d) kv) \<noteq> ILLEGAL
    \<longrightarrow> LMCLocalDiskBackend_get key d' = Returns (Some kv) (d'\<lparr>dict := update_on_get key (dict d')\<rparr>))"
proof (intro conjI impI)
  assume a: "LMCLocalBackend_put_blocking up_m key kv m = Returns () m'
      \<and> snd (up_m (dict m) kv) \<noteq> ILLEGAL \<and> \<not> update_lock m'"
  obtain evs st where up: "up_m (dict m) kv = (evs, st)" by (cases "up_m (dict m) kv")
  with a have "st \<noteq> ILLEGAL" by simp
  from a have p: "LMCLocalBackend_put_blocking up_m key kv m = Returns () m'" by simp
  from local_put_blocking_Returns [OF p up \<open>st \<noteq> ILLEGAL\<close>]
  have "map_of (dict m') key = Some kv"
    by (simp add: map_of_od_setitem_same)
  with a show "LMCLocalBackend_get key m' = Returns (Some kv) (m'\<lparr>dict := update_on_get key (dict m')\<rparr>)"
    by (simp add: LMCLocalBackend_get_def)
next
  assume a: "LMCLocalDiskBackend_put_blocking to_string up_d key kv d = Returns () d'
      \<and> snd (up_d (dict d) kv) \<noteq> ILLEGAL"
  obtain evs st where up: "up_d (dict d) kv = (evs, st)" by (cases "up_d (dict d) kv")
  with a have "st \<noteq> ILLEGAL" by simp
  from a have p: "LMCLocalDiskBackend_put_blocking to_string up_d key kv d = Returns () d'" by simp
  from disk_put_blocking_Returns [OF p up \<open>st \<noteq> ILLEGAL\<close>]
  obtain s1 where s': "d' = s1\<lparr>dict := od_setitem key (key_to_path (path d) to_string key) (dict s1),
                      files := (files s1)(key_to_path (path d) to_string key \<mapsto> kv)\<rparr>"
    by blast
  have m: "map_of (dict d') key = Some (key_to_path (path d) to_string key)"
    and f: "files d' (key_to_path (path d) to_string key) = Some kv"
    and c: "od_contains key (dict d')"
    using s' by (simp_all add: map_of_od_setitem_same od_contains_def od_keys_od_setitem)
  show "LMCLocalDiskBackend_get key d' = Returns (Some kv) (d'\<lparr>dict := update_on_get key (dict d')\<rparr>)"
    using m f c by (simp add: LMCLocalDiskBackend_get_def Let_def)
qed




lemma od_keys_filter:
  "od_keys (filter (\<lambda>e. fst e \<notin> S) d) = filter (\<lambda>k. k \<notin> S) (od_keys d)"
  by (induction d) (auto simp: od_keys_def)

lemma map_of_filter_keys:
  "map_of (filter (\<lambda>e. fst e \<notin> S) d) k = (if k \<in> S then None else map_of d k)"
  by (induction d) auto

lemma od_keys_move_to_end:
  "map_of d key = Some v \<Longrightarrow>
     od_keys (od_move_to_end key d) = filter (\<lambda>k. k \<noteq> key) (od_keys d) @ [key]"
  by (simp add: od_move_to_end_def od_delete_def od_keys_def filter_map comp_def)

lemma od_contains_map_of: "od_contains key d \<Longrightarrow> \<exists>v. map_of d key = Some v"
  by (induction d) (auto simp: od_contains_def od_keys_def)

lemma local_reput_keeps_order:
  assumes up: "up (dict m) kv = (evs, st)" and st: "st \<noteq> ILLEGAL"
      and notin: "key \<notin> set evs" and present: "od_contains key (dict m)"
      and put: "LMCLocalBackend_put_blocking up key kv m = Returns () m'"
  shows "od_keys (dict m') = filter (\<lambda>k. k \<notin> set evs) (od_keys (dict m))"
    and "map_of (dict m') key = Some kv"
    and "k \<noteq> key \<Longrightarrow> map_of (dict m') k = (if k \<in> set evs then None else map_of (dict m) k)"
proof -
  from local_put_blocking_Returns [OF put up st]
  have d: "dict m' = od_setitem key kv (filter (\<lambda>e. fst e \<notin> set evs) (dict m))" by simp
  from present notin have "key \<in> set (od_keys (filter (\<lambda>e. fst e \<notin> set evs) (dict m)))"
    by (simp add: od_keys_filter od_contains_def)
  then show "od_keys (dict m') = filter (\<lambda>k. k \<notin> set evs) (od_keys (dict m))"
    by (simp add: d od_keys_od_setitem od_keys_filter)
  show "map_of (dict m') key = Some kv"
    by (simp add: d map_of_od_setitem_same)
  show "k \<noteq> key \<Longrightarrow> map_of (dict m') k = (if k \<in> set evs then None else map_of (dict m) k)"
    by (simp add: d map_of_od_setitem_other map_of_filter_keys)
qed

lemma disk_reput_keeps_order:
  assumes up: "up (dict d) kv = (evs, st)" and st: "st \<noteq> ILLEGAL"
      and notin: "key \<notin> set evs" and present: "od_contains key (dict d)"
      and put: "LMCLocalDiskBackend_put_blocking ts up key kv d = Returns () d'"
  shows "od_keys (dict d') = filter (\<lambda>k. k \<notin> set evs) (od_keys (dict d))"
    and "map_of (dict d') key = Some (key_to_path (path d) ts key)"
    and "files d' (key_to_path (path d) ts key) = Some kv"
    and "k \<noteq> key \<Longrightarrow> map_of (dict d') k = (if k \<in> set evs then None else map_of (dict d) k)"
proof -
  from disk_put_blocking_Returns [OF put up st]
  obtain s1 where e: "evict_caches LMCLocalDiskBackend_remove evs d = Returns () s1"
    and d': "d' = s1\<lparr>dict := od_setitem key (key_to_path (path d) ts key) (dict s1),
                      files := (files s1)(key_to_path (path d) ts key \<mapsto> kv)\<rparr>"
    by blast
  from evict_caches_disk_Returns [OF e]
  have s1: "dict s1 = filter (\<lambda>e. fst e \<notin> set evs) (dict d)" by simp
  from present notin have "key \<in> set (od_keys (filter (\<lambda>e. fst e \<notin> set evs) (dict d)))"
    by (simp add: od_keys_filter od_contains_def)
  then show "od_keys (dict d') = filter (\<lambda>k. k \<notin> set evs) (od_keys (dict d))"
    by (simp add: d' s1 od_keys_od_setitem od_keys_filter)
  show "map_of (dict d') key = Some (key_to_path (path d) ts key)"
    by (simp add: d' map_of_od_setitem_same)
  show "files d' (key_to_path (path d) ts key) = Some kv"
    by (simp add: d')
  show "k \<noteq> key \<Longrightarrow> map_of (dict d') k = (if k \<in> set evs then None else map_of (dict d) k)"
    by (simp add: d' s1 map_of_od_setitem_other map_of_filter_keys)
qed

lemma local_get_moves_to_end:
  assumes "od_contains key (dict m)" and "\<not> update_lock m"
  shows "\<exists>v mg. LMCLocalBackend_get key m = Returns (Some v) mg
           \<and> od_keys (dict mg) = filter (\<lambda>k. k \<noteq> key) (od_keys (dict m)) @ [key]"
proof -
  from od_contains_map_of [OF assms(1)] obtain v where v: "map_of (dict m) key = Some v" ..
  with assms(2) show ?thesis
    by (simp add: LMCLocalBackend_get_def update_on_get_def od_keys_move_to_end)
qed

text \<open>
  C10. For a key that is already in the catalog, an admitted blocking put whose eviction
  list does not contain the key keeps the recency order: the keys of the catalog afterwards
  are the keys before, in the same order, less the evicted ones (so exactly the keys before
  when nothing is evicted). The key holds the new payload (on disk: its derived path, whose
  file holds the new payload) and every other surviving key holds what it held. A get of
  the key, by contrast, moves it to the most-recently-used end.
\<close>

theorem reput_keeps_recency_order:
  "(up_m (dict m) kv = (evs, st) \<and> st \<noteq> ILLEGAL \<and> key \<notin> set evs \<and> od_contains key (dict m)
      \<and> LMCLocalBackend_put_blocking up_m key kv m = Returns () m'
    \<longrightarrow> od_keys (dict m') = filter (\<lambda>k. k \<notin> set evs) (od_keys (dict m))
      \<and> (evs = [] \<longrightarrow> od_keys (dict m') = od_keys (dict m))
      \<and> map_of (dict m') key = Some kv
      \<and> (\<forall>k. k \<noteq> key \<and> k \<notin> set evs \<longrightarrow> map_of (dict m') k = map_of (dict m) k)
      \<and> (\<not> update_lock m \<longrightarrow>
           (\<exists>v mg. LMCLocalBackend_get key m = Returns (Some v) mg
              \<and> od_keys (dict mg) = filter (\<lambda>k. k \<noteq> key) (od_keys (dict m)) @ [key])))
 \<and> (up_d (dict d) kv = (evs_d, st_d) \<and> st_d \<noteq> ILLEGAL \<and> key \<notin> set evs_d
      \<and> od_contains key (dict d)
      \<and> LMCLocalDiskBackend_put_blocking to_string up_d key kv d = Returns () d'
    \<longrightarrow> od_keys (dict d') = filter (\<lambda>k. k \<notin> set evs_d) (od_keys (dict d))
      \<and> (evs_d = [] \<longrightarrow> od_keys (dict d') = od_keys (dict d))
      \<and> map_of (dict d') key = Some (key_to_path (path d) to_string key)
      \<and> files d' (key_to_path (path d) to_string key) = Some kv
      \<and> (\<forall>k. k \<noteq> key \<and> k \<notin> set evs_d \<longrightarrow> map_of (dict d') k = map_of (dict d) k))"
proof (intro conjI impI allI)
  assume a: "up_m (dict m) kv = (evs, st) \<and> st \<noteq> ILLEGAL \<and> key \<notin> set evs
      \<and> od_contains key (dict m)
      \<and> LMCLocalBackend_put_blocking up_m key kv m = Returns () m'"
  then have up: "up_m (dict m) kv = (evs, st)" and st: "st \<noteq> ILLEGAL"
    and notin: "key \<notin> set evs" and present: "od_contains key (dict m)"
    and put: "LMCLocalBackend_put_blocking up_m key kv m = Returns () m'"
    by simp_all
  note r = local_reput_keeps_order [OF up st notin present put]
  show o: "od_keys (dict m') = filter (\<lambda>k. k \<notin> set evs) (od_keys (dict m))" by (rule r(1))
  show "map_of (dict m') key = Some kv" by (rule r(2))
  { assume "evs = []" with o show "od_keys (dict m') = od_keys (dict m)" by simp }
  { fix k assume "k \<noteq> key \<and> k \<notin> set evs"
    then show "map_of (dict m') k = map_of (dict m) k" using r(3) [of k] by simp }
  { assume "\<not> update_lock m"
    with present show "\<exists>v mg. LMCLocalBackend_get key m = Returns (Some v) mg
              \<and> od_keys (dict mg) = filter (\<lambda>k. k \<noteq> key) (od_keys (dict m)) @ [key]"
      by (rule local_get_moves_to_end) }
next
  assume a: "up_d (dict d) kv = (evs_d, st_d) \<and> st_d \<noteq> ILLEGAL \<and> key \<notin> set evs_d
      \<and> od_contains key (dict d)
      \<and> LMCLocalDiskBackend_put_blocking to_string up_d key kv d = Returns () d'"
  then have up: "up_d (dict d) kv = (evs_d, st_d)" and st: "st_d \<noteq> ILLEGAL"
    and notin: "key \<notin> set evs_d" and present: "od_contains key (dict d)"
    and put: "LMCLocalDiskBackend_put_blocking to_string up_d key kv d = Returns () d'"
    by simp_all
  note r = disk_reput_keeps_order [OF up st notin present put]
  show o: "od_keys (dict d') = filter (\<lambda>k. k \<notin> set evs_d) (od_keys (dict d))" by (rule r(1))
  show "map_of (dict d') key = Some (key_to_path (path d) to_string key)" by (rule r(2))
  show "files d' (key_to_path (path d) to_string key) = Some kv" by (rule r(3))
  { assume "evs_d = []" with o show "od_keys (dict d') = od_keys (dict d)" by simp }
  { fix k assume "k \<noteq> key \<and> k \<notin> set evs_d"
    then show "map_of (dict d') k = map_of (dict d) k" using r(4) [of k] by simp }
qed

theorem reput_keeps_recency_order_witness:
  "lru_update_on_put 5 length length (dict example_memory3) ''xy'' = ([''k0''], LEGAL)
   \<and> LEGAL \<noteq> ILLEGAL \<and> ''k1'' \<notin> set [''k0''] \<and> od_contains ''k1'' (dict example_memory3)
   \<and> LMCLocalBackend_put_blocking (lru_update_on_put 5 length length) ''k1'' ''xy'' example_memory3
       = Returns () (example_memory3\<lparr>dict := [(''k1'', ''xy''), (''k2'', ''c'')]\<rparr>)
   \<and> od_keys [(''k1'', ''xy''), (''k2'', ''c'')] = [''k1'', ''k2'']
   \<and> od_keys (dict example_memory3) = [''k0'', ''k1'', ''k2'']
   \<and> \<not> update_lock example_memory3
   \<and> LMCLocalBackend_get ''k1'' example_memory3
       = Returns (Some ''ab'')
           (example_memory3\<lparr>dict := [(''k0'', ''aaa''), (''k2'', ''c''), (''k1'', ''ab'')]\<rparr>)
   \<and> lru_update_on_put 3 (\<lambda>v. 1) (\<lambda>p. 1) (dict example_disk3) ''xy'' = ([''k0''], LEGAL)
   \<and> od_contains ''k1'' (dict example_disk3)
   \<and> LMCLocalDiskBackend_put_blocking (\<lambda>k. k) (lru_update_on_put 3 (\<lambda>v. 1) (\<lambda>p. 1))
        ''k1'' ''xy'' example_disk3
       = Returns () (example_disk3\<lparr>dict := [(''k1'', ''/c/k1.pt''), (''k2'', ''/c/k2.pt'')],
                        files := [''/c/k1.pt'' \<mapsto> ''xy'', ''/c/k2.pt'' \<mapsto> ''c'']\<rparr>)
   \<and> od_keys [(''k1'', ''/c/k1.pt''), (''k2'', ''/c/k2.pt'')] = [''k1'', ''k2'']"
proof -
  have um: "lru_update_on_put 5 length length (dict example_memory3) ''xy'' = ([''k0''], LEGAL)"
    and ud: "lru_update_on_put 3 (\<lambda>v. 1) (\<lambda>p. 1) (dict example_disk3) ''xy'' = ([''k0''], LEGAL)"
    by (simp_all add: lru_update_on_put_def example_memory3_def example_disk3_def)
  have cm: "od_contains ''k1'' (dict example_memory3)"
    and cd: "od_contains ''k1'' (dict example_disk3)"
    and l: "\<not> update_lock example_memory3"
    by (simp_all add: od_contains_def od_keys_def example_memory3_def example_disk3_def)
  have pm: "LMCLocalBackend_put_blocking (lru_update_on_put 5 length length) ''k1'' ''xy''
              example_memory3
            = Returns () (example_memory3\<lparr>dict := [(''k1'', ''xy''), (''k2'', ''c'')]\<rparr>)"
    by (simp add: example_memory3_def lru_update_on_put_def eval_defs)
  have pd: "LMCLocalDiskBackend_put_blocking (\<lambda>k. k) (lru_update_on_put 3 (\<lambda>v. 1) (\<lambda>p. 1))
              ''k1'' ''xy'' example_disk3
            = Returns () (example_disk3\<lparr>dict := [(''k1'', ''/c/k1.pt''), (''k2'', ''/c/k2.pt'')],
                        files := [''/c/k1.pt'' \<mapsto> ''xy'', ''/c/k2.pt'' \<mapsto> ''c'']\<rparr>)"
    by (simp add: example_disk3_def lru_update_on_put_def eval_defs fun_upd_twist)
  have g: "LMCLocalBackend_get ''k1'' example_memory3
       = Returns (Some ''ab'')
           (example_memory3\<lparr>dict := [(''k0'', ''aaa''), (''k2'', ''c''), (''k1'', ''ab'')]\<rparr>)"
    by (simp add: example_memory3_def eval_defs)
  have k: "od_keys [(''k1'', ''xy''), (''k2'', ''c'')] = [''k1'', ''k2'']"
    "od_keys (dict example_memory3) = [''k0'', ''k1'', ''k2'']"
    "od_keys [(''k1'', ''/c/k1.pt''), (''k2'', ''/c/k2.pt'')] = [''k1'', ''k2'']"
    by (simp_all add: od_keys_def example_memory3_def)
  from reput_keeps_recency_order [of "lru_update_on_put 5 length length" example_memory3 "''xy''"
      "[''k0'']" LEGAL "''k1''" "example_memory3\<lparr>dict := [(''k1'', ''xy''), (''k2'', ''c'')]\<rparr>"
      "lru_update_on_put 3 (\<lambda>v. 1) (\<lambda>p. 1)" example_disk3 "[''k0'']" LEGAL "\<lambda>k. k"
      "example_disk3\<lparr>dict := [(''k1'', ''/c/k1.pt''), (''k2'', ''/c/k2.pt'')],
                        files := [''/c/k1.pt'' \<mapsto> ''xy'', ''/c/k2.pt'' \<mapsto> ''c'']\<rparr>"]
    um ud cm cd l pm pd g k
  show ?thesis by simp
qed

section \<open>The path of a key\<close>


lemma replace_slash_flat: "CHR ''/'' \<notin> set (replace_slash str)"
  by (auto simp: replace_slash_def)

lemma replace_slash_inj:
  assumes "CHR ''-'' \<notin> set a" and "CHR ''-'' \<notin> set b" and "replace_slash a = replace_slash b"
  shows "a = b"
proof -
  have "inj_on (\<lambda>c. if c = CHR ''/'' then CHR ''-'' else c) (set a \<union> set b)"
    using assms(1,2) by (auto simp: inj_on_def split: if_splits)
  with assms(3) show ?thesis
    unfolding replace_slash_def by (rule map_inj_on)
qed

lemma key_to_path_eq_iff:
  "key_to_path base ts k = key_to_path base ts k' \<longleftrightarrow> replace_slash (ts k) = replace_slash (ts k')"
  by (simp add: key_to_path_def)

text \<open>
  C6, as the code has it. The path of a key is the plain concatenation of the base path, the
  key's canonical string with every slash replaced by a hyphen, and \<open>.pt\<close>: no separator
  is put between the base path and the name. The name holds no slash and is as long as the
  canonical string with its extension. Two keys have the same path exactly when their
  canonical strings agree after the replacement; so keys whose canonical strings differ and
  hold no hyphen have different paths.
\<close>

theorem key_to_path_shape:
  "key_to_path base to_string k = base @ replace_slash (to_string k) @ ''.pt''
   \<and> CHR ''/'' \<notin> set (replace_slash (to_string k) @ ''.pt'')
   \<and> length (replace_slash (to_string k)) = length (to_string k)
   \<and> (key_to_path base to_string k = key_to_path base to_string k'
        \<longleftrightarrow> replace_slash (to_string k) = replace_slash (to_string k'))
   \<and> (CHR ''-'' \<notin> set (to_string k) \<and> CHR ''-'' \<notin> set (to_string k')
        \<and> to_string k \<noteq> to_string k'
      \<longrightarrow> key_to_path base to_string k \<noteq> key_to_path base to_string k')"
proof (intro conjI impI)
  show "key_to_path base to_string k = base @ replace_slash (to_string k) @ ''.pt''"
    by (simp add: key_to_path_def)
  show "CHR ''/'' \<notin> set (replace_slash (to_string k) @ ''.pt'')"
    using replace_slash_flat [of "to_string k"] by simp
  show "length (replace_slash (to_string k)) = length (to_string k)"
    by (simp add: replace_slash_def)
  show "key_to_path base to_string k = key_to_path base to_string k'
        \<longleftrightarrow> replace_slash (to_string k) = replace_slash (to_string k')"
    by (rule key_to_path_eq_iff)
next
  assume a: "CHR ''-'' \<notin> set (to_string k) \<and> CHR ''-'' \<notin> set (to_string k')
        \<and> to_string k \<noteq> to_string k'"
  show "key_to_path base to_string k \<noteq> key_to_path base to_string k'"
  proof
    assume "key_to_path base to_string k = key_to_path base to_string k'"
    then have "replace_slash (to_string k) = replace_slash (to_string k')"
      by (simp add: key_to_path_eq_iff)
    with a have "to_string k = to_string k'"
      by (auto intro: replace_slash_inj)
    with a show False by simp
  qed
qed

theorem key_to_path_shape_witness:
  "key_to_path ''/c/'' (\<lambda>k. k) ''m/x'' = ''/c/m-x.pt''
   \<and> CHR ''-'' \<notin> set ''m/x'' \<and> CHR ''-'' \<notin> set ''m/y'' \<and> ''m/x'' \<noteq> ''m/y''
   \<and> key_to_path ''/c/'' (\<lambda>k. k) ''m/x'' \<noteq> key_to_path ''/c/'' (\<lambda>k. k) ''m/y''"
  using key_to_path_shape [of "''/c/''" "\<lambda>k. k" "''m/x''" "''m/y''"]
  by (auto simp: replace_slash_def)

text \<open>
  The claim C6 as it was stated fails twice: the keys \<open>a/b\<close> and \<open>a-b\<close> are distinct and
  share one path, and with the base path \<open>/cache\<close> the file of key \<open>k\<close> is
  \<open>/cachek.pt\<close>, not \<open>/cache/k.pt\<close>.
\<close>

theorem key_to_path_counterexample:
  "''a/b'' \<noteq> ''a-b''
   \<and> key_to_path ''/cache/'' (\<lambda>k. k) ''a/b'' = key_to_path ''/cache/'' (\<lambda>k. k) ''a-b''
   \<and> key_to_path ''/cache'' (\<lambda>k. k) ''k'' = ''/cachek.pt''
   \<and> key_to_path ''/cache'' (\<lambda>k. k) ''k'' \<noteq> ''/cache/k.pt''"
  by (simp add: key_to_path_def replace_slash_def)

section \<open>The disk invariant\<close>

lemma od_contains_od_delete: "od_contains k (od_delete key d) \<longleftrightarrow> k \<noteq> key \<and> od_contains k d"
  by (auto simp: od_contains_def od_keys_def od_delete_def)

lemma od_contains_od_setitem: "od_contains k (od_setitem key v d) \<longleftrightarrow> k = key \<or> od_contains k d"
  by (auto simp: od_contains_def od_keys_od_setitem)

lemma distinct_od_delete: "distinct (od_keys d) \<Longrightarrow> distinct (od_keys (od_delete key d))"
  by (simp add: od_keys_def od_delete_def distinct_map_filter)

lemma distinct_od_setitem: "distinct (od_keys d) \<Longrightarrow> distinct (od_keys (od_setitem key v d))"
  by (simp add: od_keys_od_setitem)

lemma set_od_setitem: "set (od_setitem key v d) \<subseteq> insert (key, v) (set d)"
  by (induction d) auto

lemma catalog_consistent_lock [simp]:
  "catalog_consistent ts (s\<lparr>update_lock := b\<rparr>) = catalog_consistent ts s"
  by (simp add: catalog_consistent_def)

lemma disk_remove_consistent:
  assumes inj: "inj (key_to_path (path s) ts)" and c: "catalog_consistent ts s"
      and r: "after (LMCLocalDiskBackend_remove key s) = Some s'"
  shows "catalog_consistent ts s' \<and> path s' = path s"
proof (cases "update_lock s")
  case True
  with r show ?thesis by (simp add: LMCLocalDiskBackend_remove_def)
next
  case False
  show ?thesis
  proof (cases "map_of (dict s) key")
    case None
    with False r c show ?thesis by (auto simp: LMCLocalDiskBackend_remove_def)
  next
    case (Some p)
    then have mem: "(key, p) \<in> set (dict s)" by (rule map_of_SomeD)
    with c have p: "p = key_to_path (path s) ts key"
      by (force simp: catalog_consistent_def)
    from mem have "od_contains key (dict s)"
      by (force simp: od_contains_def od_keys_def)
    with c p have f: "p \<in> dom (files s)"
      by (simp add: catalog_consistent_def)
    from f obtain v where v: "files s p = Some v" by auto
    from False Some v r
    have s': "s' = s\<lparr>dict := od_delete key (dict s), files := (files s)(p := None)\<rparr>"
      by (simp add: LMCLocalDiskBackend_remove_def Let_def)
    have other: "key_to_path (path s) ts k = p \<longleftrightarrow> k = key" for k
      using inj p by (auto dest: injD)
    have "distinct (od_keys (dict s'))"
      using c by (simp add: s' catalog_consistent_def distinct_od_delete)
    moreover have "\<forall>e \<in> set (dict s'). snd e = key_to_path (path s') ts (fst e)"
      using c by (simp add: s' catalog_consistent_def od_delete_def)
    moreover have "\<forall>k. od_contains k (dict s') \<longleftrightarrow> key_to_path (path s') ts k \<in> dom (files s')"
      using c other by (auto simp: s' catalog_consistent_def od_contains_od_delete)
    ultimately show ?thesis by (simp add: catalog_consistent_def s')
  qed
qed

lemma evict_caches_disk_consistent:
  assumes "inj (key_to_path (path s) ts)" and "catalog_consistent ts s"
      and "after (evict_caches LMCLocalDiskBackend_remove ks s) = Some s'"
  shows "catalog_consistent ts s' \<and> path s' = path s"
  using assms
proof (induction ks arbitrary: s)
  case Nil
  then show ?case by simp
next
  case (Cons k ks)
  show ?case
  proof (cases "LMCLocalDiskBackend_remove k s")
    case (Returns u s1)
    then have a: "after (LMCLocalDiskBackend_remove k s) = Some s1" by simp
    from disk_remove_consistent [OF Cons.prems(1,2) a]
    have c1: "catalog_consistent ts s1" and p1: "path s1 = path s" by simp_all
    from Cons.prems(3) Returns have "after (evict_caches LMCLocalDiskBackend_remove ks s1) = Some s'"
      by simp
    from Cons.IH [OF _ c1 this] Cons.prems(1) p1 show ?thesis by simp
  next
    case (Raises e s1)
    then have a: "after (LMCLocalDiskBackend_remove k s) = Some s1" by simp
    from Cons.prems(3) Raises have "s' = s1" by simp
    with disk_remove_consistent [OF Cons.prems(1,2) a] show ?thesis by simp
  next
    case (Blocks s1)
    with Cons.prems(3) show ?thesis by simp
  qed
qed

lemma disk_put_blocking_consistent:
  assumes inj: "inj (key_to_path (path s) ts)" and c: "catalog_consistent ts s"
      and r: "after (LMCLocalDiskBackend_put_blocking ts up key kv s) = Some s'"
  shows "catalog_consistent ts s' \<and> path s' = path s"
proof -
  obtain evs st where up: "up (dict s) kv = (evs, st)" by (cases "up (dict s) kv")
  show ?thesis
  proof (cases "st = ILLEGAL")
    case True
    with up r c show ?thesis by (simp add: LMCLocalDiskBackend_put_blocking_def)
  next
    case False
    show ?thesis
    proof (cases "evict_caches LMCLocalDiskBackend_remove evs s")
      case (Returns u s1)
      then have "after (evict_caches LMCLocalDiskBackend_remove evs s) = Some s1" by simp
      from evict_caches_disk_consistent [OF inj c this]
      have c1: "catalog_consistent ts s1" and p1: "path s1 = path s" by simp_all
      define p where "p = key_to_path (path s) ts key"
      from up False Returns r
      have s': "s' = s1\<lparr>dict := od_setitem key p (dict s1), files := (files s1)(p \<mapsto> kv)\<rparr>"
        by (auto simp: LMCLocalDiskBackend_put_blocking_def Let_def p_def split: if_splits)
      have other: "key_to_path (path s) ts k = p \<longleftrightarrow> k = key" for k
        using inj by (auto simp: p_def dest: injD)
      have "distinct (od_keys (dict s'))"
        using c1 by (simp add: s' catalog_consistent_def distinct_od_setitem)
      moreover have "\<forall>e \<in> set (dict s'). snd e = key_to_path (path s') ts (fst e)"
        using c1 set_od_setitem [of key p "dict s1"]
        by (auto simp: s' catalog_consistent_def p1 p_def)
      moreover have "\<forall>k. od_contains k (dict s') \<longleftrightarrow> key_to_path (path s') ts k \<in> dom (files s')"
        using c1 other by (auto simp: s' catalog_consistent_def od_contains_od_setitem p1)
      ultimately show ?thesis by (simp add: catalog_consistent_def s' p1)
    next
      case (Raises e s1)
      then have a: "after (evict_caches LMCLocalDiskBackend_remove evs s) = Some s1" by simp
      from up False Raises r have "s' = s1"
        by (simp add: LMCLocalDiskBackend_put_blocking_def)
      with evict_caches_disk_consistent [OF inj c a] show ?thesis by simp
    next
      case (Blocks s1)
      with up False r show ?thesis
        by (simp add: LMCLocalDiskBackend_put_blocking_def)
    qed
  qed
qed

lemma od_move_to_end_consistent:
  assumes "distinct (od_keys d)"
  shows "distinct (od_keys (od_move_to_end key d))"
    and "set (od_move_to_end key d) \<subseteq> set d"
    and "od_contains k (od_move_to_end key d) \<longleftrightarrow> od_contains k d"
proof -
  show "distinct (od_keys (od_move_to_end key d))"
    using assms
    by (auto simp: od_move_to_end_def od_keys_def od_delete_def distinct_map_filter
        split: option.splits)
  show "set (od_move_to_end key d) \<subseteq> set d"
    by (auto simp: od_move_to_end_def od_delete_def split: option.splits dest: map_of_SomeD)
  show "od_contains k (od_move_to_end key d) \<longleftrightarrow> od_contains k d"
    by (force simp: od_move_to_end_def od_delete_def od_contains_def od_keys_def
        split: option.splits dest: map_of_SomeD)
qed

lemma disk_get_consistent:
  assumes c: "catalog_consistent ts s"
      and r: "after (LMCLocalDiskBackend_get key s) = Some s'"
  shows "catalog_consistent ts s' \<and> path s' = path s"
proof -
  from r have "s' = s \<or> s' = s\<lparr>dict := update_on_get key (dict s)\<rparr>"
    by (auto simp: LMCLocalDiskBackend_get_def Let_def split: if_splits option.splits)
  then show ?thesis
  proof
    assume "s' = s" with c show ?thesis by simp
  next
    assume s': "s' = s\<lparr>dict := update_on_get key (dict s)\<rparr>"
    from c have d: "distinct (od_keys (dict s))" by (simp add: catalog_consistent_def)
    note m = od_move_to_end_consistent [OF d]
    from c m(2) [of key]
    have "\<forall>e \<in> set (dict s'). snd e = key_to_path (path s') ts (fst e)"
      by (auto simp: s' update_on_get_def catalog_consistent_def)
    with c m(1) [of key] m(3) [of _ key] show ?thesis
      by (simp add: catalog_consistent_def s' update_on_get_def)
  qed
qed

lemma disk_apply_consistent:
  assumes i: "inj (key_to_path (path s) ts)" and c: "catalog_consistent ts s"
      and a: "disk_apply ts up op s = Some s'"
  shows "catalog_consistent ts s' \<and> path s' = path s"
proof (cases op)
  case (OpPut k v)
  with a have "after (LMCLocalDiskBackend_put_blocking ts up k v s) = Some s'" by simp
  with i c show ?thesis by (rule disk_put_blocking_consistent)
next
  case (OpRemove k)
  with a have "after (LMCLocalDiskBackend_remove k s) = Some s'" by simp
  with i c show ?thesis by (rule disk_remove_consistent)
next
  case (OpGet k)
  with a have "after (LMCLocalDiskBackend_get k s) = Some s'" by simp
  with c show ?thesis by (rule disk_get_consistent)
qed

lemma disk_run_consistent:
  assumes "inj (key_to_path (path s) ts)" and "catalog_consistent ts s"
      and "disk_run ts up ops s = Some s'"
  shows "catalog_consistent ts s' \<and> path s' = path s"
  using assms
proof (induction ops arbitrary: s)
  case Nil
  then show ?case by simp
next
  case (Cons op ops)
  from Cons.prems(3) obtain s1 where a: "disk_apply ts up op s = Some s1"
    and r: "disk_run ts up ops s1 = Some s'"
    by (auto split: option.splits)
  from disk_apply_consistent [OF Cons.prems(1,2) a]
  have c1: "catalog_consistent ts s1" and p1: "path s1 = path s" by simp_all
  from Cons.prems(1) p1 have "inj (key_to_path (path s1) ts)" by simp
  from Cons.IH [OF this c1 r] p1 show ?case by simp
qed

lemma consistent_get_returns:
  assumes c: "catalog_consistent ts s" and p: "od_contains key (dict s)"
  shows "\<exists>v s'. LMCLocalDiskBackend_get key s = Returns (Some v) s'"
proof -
  from od_contains_map_of [OF p] obtain q where q: "map_of (dict s) key = Some q" ..
  then have mem: "(key, q) \<in> set (dict s)" by (rule map_of_SomeD)
  with c have "q = key_to_path (path s) ts key" by (force simp: catalog_consistent_def)
  with c p have "q \<in> dom (files s)" by (simp add: catalog_consistent_def)
  then obtain v where "files s q = Some v" by auto
  with p q show ?thesis by (simp add: LMCLocalDiskBackend_get_def Let_def)
qed

lemma example_to_string_inj: "inj (key_to_path base example_to_string)"
proof (rule injI)
  fix a b assume "key_to_path base example_to_string a = key_to_path base example_to_string b"
  then have "replace_slash (example_to_string a) = replace_slash (example_to_string b)"
    by (simp add: key_to_path_def)
  then have "length (replace_slash (example_to_string a)) = length (replace_slash (example_to_string b))"
    by simp
  then show "a = b" by (simp add: replace_slash_def example_to_string_def)
qed

lemma example_disk_empty_consistent: "catalog_consistent ts example_disk_empty"
  by (simp add: catalog_consistent_def example_disk_empty_def od_keys_def od_contains_def)

text \<open>
  C3, as the code has it. Provided the derivation of a path from a key is injective (no two
  keys share a file name), consistency of catalog and files is an invariant of the disk
  backend: from a consistent state, after any sequence of blocking puts, removes and gets
  that have each returned or raised, whatever the evictor answers, the state is consistent.
  In such a state a key is in the catalog exactly when its file exists, no catalog entry
  names a missing file, and a get of a key in the catalog returns a payload.
\<close>

theorem catalog_consistent_invariant:
  assumes "inj (key_to_path (path s) to_string)" and "catalog_consistent to_string s"
      and "disk_run to_string up ops s = Some s'"
  shows "catalog_consistent to_string s'
       \<and> (\<forall>k. LMCLocalDiskBackend_contains k s' \<longleftrightarrow> key_to_path (path s') to_string k \<in> dom (files s'))
       \<and> (\<forall>k p. map_of (dict s') k = Some p \<longrightarrow> p \<in> dom (files s'))
       \<and> (\<forall>k. LMCLocalDiskBackend_contains k s'
             \<longrightarrow> (\<exists>v t. LMCLocalDiskBackend_get k s' = Returns (Some v) t))"
proof -
  from disk_run_consistent [OF assms]
  have c: "catalog_consistent to_string s'" by simp
  have 1: "\<forall>k. LMCLocalDiskBackend_contains k s' \<longleftrightarrow> key_to_path (path s') to_string k \<in> dom (files s')"
    using c by (simp add: catalog_consistent_def LMCLocalDiskBackend_contains_def)
  have 2: "p \<in> dom (files s')" if m: "map_of (dict s') k = Some p" for k p
  proof -
    from m have mem: "(k, p) \<in> set (dict s')" by (rule map_of_SomeD)
    with c have "p = key_to_path (path s') to_string k" by (force simp: catalog_consistent_def)
    moreover from mem have "od_contains k (dict s')" by (force simp: od_contains_def od_keys_def)
    ultimately show ?thesis using c by (simp add: catalog_consistent_def)
  qed
  have 3: "\<exists>v t. LMCLocalDiskBackend_get k s' = Returns (Some v) t"
    if "LMCLocalDiskBackend_contains k s'" for k
    using consistent_get_returns [OF c] that by (simp add: LMCLocalDiskBackend_contains_def)
  from c 1 2 3 show ?thesis by blast
qed

theorem catalog_consistent_invariant_witness:
  "inj (key_to_path (path (example_disk_empty :: (nat, string) disk_backend)) example_to_string)
   \<and> catalog_consistent example_to_string (example_disk_empty :: (nat, string) disk_backend)
   \<and> disk_run example_to_string (lru_update_on_put 4 length (\<lambda>p. 2))
        [OpPut (Suc 0) ''ab'', OpPut (Suc (Suc 0)) ''cd'', OpGet (Suc 0), OpRemove (Suc (Suc 0))]
        example_disk_empty
       = Some (example_disk_empty\<lparr>dict := [(Suc 0, ''/c/k.pt'')], files := [''/c/k.pt'' \<mapsto> ''ab'']\<rparr>)
   \<and> catalog_consistent example_to_string
        (example_disk_empty\<lparr>dict := [(Suc 0, ''/c/k.pt'')], files := [''/c/k.pt'' \<mapsto> ''ab'']\<rparr>)
   \<and> LMCLocalDiskBackend_get (Suc 0)
        (example_disk_empty\<lparr>dict := [(Suc 0, ''/c/k.pt'')], files := [''/c/k.pt'' \<mapsto> ''ab'']\<rparr>)
       = Returns (Some ''ab'')
           (example_disk_empty\<lparr>dict := [(Suc 0, ''/c/k.pt'')], files := [''/c/k.pt'' \<mapsto> ''ab'']\<rparr>)"
proof -
  have i: "inj (key_to_path (path (example_disk_empty :: (nat, string) disk_backend)) example_to_string)"
    by (rule example_to_string_inj)
  have c: "catalog_consistent example_to_string (example_disk_empty :: (nat, string) disk_backend)"
    by (rule example_disk_empty_consistent)
  have r: "disk_run example_to_string (lru_update_on_put 4 length (\<lambda>p. 2))
        [OpPut (Suc 0) ''ab'', OpPut (Suc (Suc 0)) ''cd'', OpGet (Suc 0), OpRemove (Suc (Suc 0))]
        example_disk_empty
       = Some (example_disk_empty\<lparr>dict := [(Suc 0, ''/c/k.pt'')], files := [''/c/k.pt'' \<mapsto> ''ab'']\<rparr>)"
    by (simp add: example_disk_empty_def example_to_string_def lru_update_on_put_def eval_defs)
  have g: "LMCLocalDiskBackend_get (Suc 0)
        (example_disk_empty\<lparr>dict := [(Suc 0, ''/c/k.pt'')], files := [''/c/k.pt'' \<mapsto> ''ab'']\<rparr>)
       = Returns (Some ''ab'')
           (example_disk_empty\<lparr>dict := [(Suc 0, ''/c/k.pt'')], files := [''/c/k.pt'' \<mapsto> ''ab'']\<rparr>)"
    by (simp add: example_disk_empty_def eval_defs)
  from catalog_consistent_invariant [OF i c r] i c r g show ?thesis by simp
qed

text \<open>
  The claim C3 as it was stated fails where two keys share a path: after putting \<open>a/b\<close> and
  \<open>a-b\<close>, which both live in the file \<open>/c/a-b.pt\<close>, removing \<open>a/b\<close> deletes that file
  while \<open>a-b\<close> stays in the catalog, and a get of \<open>a-b\<close> raises.
\<close>

theorem catalog_consistent_counterexample:
  "catalog_consistent (\<lambda>k. k) (example_disk_empty :: (string, string) disk_backend)
   \<and> disk_run (\<lambda>k. k) (lru_update_on_put 10 length (\<lambda>p. 2))
        [OpPut ''a/b'' ''v1'', OpPut ''a-b'' ''v2'', OpRemove ''a/b''] example_disk_empty
       = Some (example_disk_empty\<lparr>dict := [(''a-b'', ''/c/a-b.pt'')]\<rparr>)
   \<and> LMCLocalDiskBackend_contains ''a-b'' (example_disk_empty\<lparr>dict := [(''a-b'', ''/c/a-b.pt'')]\<rparr>)
   \<and> files (example_disk_empty\<lparr>dict := [(''a-b'', ''/c/a-b.pt'')]\<rparr> :: (string, string) disk_backend)
        ''/c/a-b.pt'' = None
   \<and> LMCLocalDiskBackend_get ''a-b''
        (example_disk_empty\<lparr>dict := [(''a-b'', ''/c/a-b.pt'')]\<rparr> :: (string, string) disk_backend)
       = Raises FileNotFoundError (example_disk_empty\<lparr>dict := [(''a-b'', ''/c/a-b.pt'')]\<rparr>)
   \<and> \<not> catalog_consistent (\<lambda>k. k)
        (example_disk_empty\<lparr>dict := [(''a-b'', ''/c/a-b.pt'')]\<rparr> :: (string, string) disk_backend)"
proof -
  have c: "catalog_consistent (\<lambda>k. k) (example_disk_empty :: (string, string) disk_backend)"
    by (rule example_disk_empty_consistent)
  have r: "disk_run (\<lambda>k. k) (lru_update_on_put 10 length (\<lambda>p. 2))
        [OpPut ''a/b'' ''v1'', OpPut ''a-b'' ''v2'', OpRemove ''a/b''] example_disk_empty
       = Some (example_disk_empty\<lparr>dict := [(''a-b'', ''/c/a-b.pt'')]\<rparr>)"
    by (simp add: example_disk_empty_def lru_update_on_put_def eval_defs)
  have g: "LMCLocalDiskBackend_get ''a-b''
        (example_disk_empty\<lparr>dict := [(''a-b'', ''/c/a-b.pt'')]\<rparr> :: (string, string) disk_backend)
       = Raises FileNotFoundError (example_disk_empty\<lparr>dict := [(''a-b'', ''/c/a-b.pt'')]\<rparr>)"
    by (simp add: example_disk_empty_def eval_defs)
  have n: "\<not> catalog_consistent (\<lambda>k. k)
        (example_disk_empty\<lparr>dict := [(''a-b'', ''/c/a-b.pt'')]\<rparr> :: (string, string) disk_backend)"
  proof
    assume "catalog_consistent (\<lambda>k. k)
        (example_disk_empty\<lparr>dict := [(''a-b'', ''/c/a-b.pt'')]\<rparr> :: (string, string) disk_backend)"
    then have "\<forall>k. \<not> od_contains k [(''a-b'', ''/c/a-b.pt'')]"
      by (simp add: catalog_consistent_def example_disk_empty_def key_to_path_def
          replace_slash_def)
    then have "\<not> od_contains ''a-b'' [(''a-b'', ''/c/a-b.pt'')]" by (rule spec)
    then show False by (simp add: od_contains_def od_keys_def)
  qed
  from c r g n show ?thesis
    by (simp add: LMCLocalDiskBackend_contains_def od_contains_def od_keys_def example_disk_empty_def)
qed

section \<open>The mutex of the memory backend\<close>

lemma local_put_worker_Nil:
  "put_queue s = [] \<Longrightarrow> LMCLocalBackend_put_worker up s = Blocks s"
  by (subst LMCLocalBackend_put_worker.simps) simp

lemma local_put_worker_End:
  "put_queue s = LocalBackendEndSignal # rest \<Longrightarrow>
     LMCLocalBackend_put_worker up s = Returns () (s\<lparr>put_queue := rest, put_thread_alive := False\<rparr>)"
  by (subst LMCLocalBackend_put_worker.simps) simp

lemma local_put_worker_Put:
  "put_queue s = Put key val # rest \<Longrightarrow>
     LMCLocalBackend_put_worker up s =
       (case LMCLocalBackend_put_nonblocking up key val (s\<lparr>put_queue := rest\<rparr>) of
          Returns _ s' \<Rightarrow> LMCLocalBackend_put_worker up s'
        | Raises e s' \<Rightarrow> Raises e (s'\<lparr>put_thread_alive := False\<rparr>)
        | Blocks s' \<Rightarrow> Blocks s')"
  by (subst LMCLocalBackend_put_worker.simps) simp

text \<open>
  C2 says that an admitted blocking put followed at once by a get of the same key returns
  the payload, on either backend. On the memory backend the code breaks this after a
  rejected queued put. \<open>put\<close> with \<open>blocking = False\<close> queues the oversized \<open>k2\<close>; the
  worker rejects it, returns from \<open>put_nonblocking\<close> with the mutex held and waits for the
  next item. A blocking put of \<open>k3\<close> is then admitted and returns, since it takes no mutex,
  and the get of \<open>k3\<close> that follows waits on the mutex for ever and returns nothing.
\<close>

theorem memory_get_after_put_waits:
  "LMCLocalBackend_put example_lru_memory ''k2'' ''abc'' False example_memory
     = Returns () (example_memory\<lparr>put_queue := [Put ''k2'' ''abc'']\<rparr>)
   \<and> LMCLocalBackend_put_worker example_lru_memory
        (example_memory\<lparr>put_queue := [Put ''k2'' ''abc'']\<rparr>)
     = Blocks (example_memory\<lparr>put_queue := [], update_lock := True\<rparr>)
   \<and> snd (example_lru_memory (dict (example_memory\<lparr>put_queue := [], update_lock := True\<rparr>)) ''c'')
     = LEGAL
   \<and> LMCLocalBackend_put example_lru_memory ''k3'' ''c'' True
        (example_memory\<lparr>put_queue := [], update_lock := True\<rparr>)
     = Returns () (example_memory\<lparr>dict := [(''k3'', ''c'')], put_queue := [], update_lock := True\<rparr>)
   \<and> LMCLocalBackend_get ''k3''
        (example_memory\<lparr>dict := [(''k3'', ''c'')], put_queue := [], update_lock := True\<rparr>)
     = Blocks (example_memory\<lparr>dict := [(''k3'', ''c'')], put_queue := [], update_lock := True\<rparr>)"
proof -
  have q: "LMCLocalBackend_put example_lru_memory ''k2'' ''abc'' False example_memory
     = Returns () (example_memory\<lparr>put_queue := [Put ''k2'' ''abc'']\<rparr>)"
    by (simp add: LMCLocalBackend_put_def example_memory_def)
  have n: "LMCLocalBackend_put_nonblocking example_lru_memory ''k2'' ''abc''
             (example_memory\<lparr>put_queue := []\<rparr>)
           = Returns () (example_memory\<lparr>put_queue := [], update_lock := True\<rparr>)"
    by (simp add: example_defs eval_defs)
  have q0: "put_queue (example_memory\<lparr>put_queue := [Put ''k2'' ''abc'']\<rparr>) = Put ''k2'' ''abc'' # []"
    and q1: "put_queue (example_memory\<lparr>put_queue := [], update_lock := True\<rparr>) = []"
    by simp_all
  have w: "LMCLocalBackend_put_worker example_lru_memory
        (example_memory\<lparr>put_queue := [Put ''k2'' ''abc'']\<rparr>)
     = Blocks (example_memory\<lparr>put_queue := [], update_lock := True\<rparr>)"
    using local_put_worker_Put [OF q0, of example_lru_memory] n
      local_put_worker_Nil [OF q1, of example_lru_memory]
    by (simp add: example_memory_def)
  have a: "snd (example_lru_memory (dict (example_memory\<lparr>put_queue := [], update_lock := True\<rparr>)) ''c'')
     = LEGAL"
    by (simp add: example_defs)
  have p: "LMCLocalBackend_put example_lru_memory ''k3'' ''c'' True
        (example_memory\<lparr>put_queue := [], update_lock := True\<rparr>)
     = Returns () (example_memory\<lparr>dict := [(''k3'', ''c'')], put_queue := [], update_lock := True\<rparr>)"
    by (simp add: LMCLocalBackend_put_def example_defs eval_defs)
  have g: "LMCLocalBackend_get ''k3''
        (example_memory\<lparr>dict := [(''k3'', ''c'')], put_queue := [], update_lock := True\<rparr>)
     = Blocks (example_memory\<lparr>dict := [(''k3'', ''c'')], put_queue := [], update_lock := True\<rparr>)"
    by (simp add: example_defs eval_defs)
  from q w a p g show ?thesis by simp
qed

text \<open>
  C4 says that the blocking put of the memory backend runs its admission sequence while
  holding the mutex and releases the mutex on every exit. The code does neither.
  \<open>put_blocking\<close> never takes the mutex: called while another thread holds it, it still
  evicts \<open>k1\<close> and inserts \<open>k2\<close>, where \<open>get\<close> on the same state waits. And
  \<open>put_nonblocking\<close>, the one put path that does take the mutex, returns from a rejected
  put with the mutex still held.
\<close>

theorem memory_put_blocking_ignores_mutex:
  "LMCLocalBackend_put_blocking example_lru_memory ''k2'' ''cd'' (example_memory\<lparr>update_lock := True\<rparr>)
     = Returns () (example_memory\<lparr>dict := [(''k2'', ''cd'')], update_lock := True\<rparr>)
   \<and> LMCLocalBackend_get ''k1'' (example_memory\<lparr>update_lock := True\<rparr>)
     = Blocks (example_memory\<lparr>update_lock := True\<rparr>)
   \<and> LMCLocalBackend_put_nonblocking example_lru_memory ''k2'' ''abc'' example_memory
     = Returns () (example_memory\<lparr>update_lock := True\<rparr>)"
  by (simp add: example_defs eval_defs)

text \<open>
  C5 says that the worker applies to every drained item exactly what a blocking put would,
  in submission order. With a rejected item \<open>k2\<close> followed by an admissible item \<open>k3\<close> in
  the queue, the worker returns from \<open>k2\<close> holding the mutex and then waits for ever on
  \<open>k3\<close>: from the state in which \<open>k3\<close> is drained, \<open>put_nonblocking\<close> waits and leaves
  the catalog as it is, while \<open>put_blocking\<close> inserts \<open>k3\<close>.
\<close>

theorem worker_diverges_from_put_blocking:
  "LMCLocalBackend_put_worker example_lru_memory
      (example_memory\<lparr>put_queue := [Put ''k2'' ''abc'', Put ''k3'' ''c'']\<rparr>)
     = Blocks (example_memory\<lparr>put_queue := [], update_lock := True\<rparr>)
   \<and> LMCLocalBackend_put_nonblocking example_lru_memory ''k3'' ''c''
        (example_memory\<lparr>put_queue := [], update_lock := True\<rparr>)
     = Blocks (example_memory\<lparr>put_queue := [], update_lock := True\<rparr>)
   \<and> LMCLocalBackend_put_blocking example_lru_memory ''k3'' ''c''
        (example_memory\<lparr>put_queue := [], update_lock := True\<rparr>)
     = Returns () (example_memory\<lparr>dict := [(''k3'', ''c'')], put_queue := [], update_lock := True\<rparr>)"
proof -
  have 1: "LMCLocalBackend_put_nonblocking example_lru_memory ''k2'' ''abc''
             (example_memory\<lparr>put_queue := [Put ''k3'' ''c'']\<rparr>)
           = Returns () (example_memory\<lparr>put_queue := [Put ''k3'' ''c''], update_lock := True\<rparr>)"
    by (simp add: example_defs eval_defs)
  have 2: "LMCLocalBackend_put_nonblocking example_lru_memory ''k3'' ''c''
             (example_memory\<lparr>put_queue := [], update_lock := True\<rparr>)
           = Blocks (example_memory\<lparr>put_queue := [], update_lock := True\<rparr>)"
    by (simp add: example_defs eval_defs)
  have q1: "put_queue (example_memory\<lparr>put_queue := [Put ''k3'' ''c''], update_lock := True\<rparr>)
              = Put ''k3'' ''c'' # []"
    and q0: "put_queue (example_memory\<lparr>put_queue := [Put ''k2'' ''abc'', Put ''k3'' ''c'']\<rparr>)
              = Put ''k2'' ''abc'' # [Put ''k3'' ''c'']"
    by simp_all
  have w1: "LMCLocalBackend_put_worker example_lru_memory
              (example_memory\<lparr>put_queue := [Put ''k3'' ''c''], update_lock := True\<rparr>)
            = Blocks (example_memory\<lparr>put_queue := [], update_lock := True\<rparr>)"
    using local_put_worker_Put [OF q1, of example_lru_memory] 2 by (simp add: example_memory_def)
  have w: "LMCLocalBackend_put_worker example_lru_memory
      (example_memory\<lparr>put_queue := [Put ''k2'' ''abc'', Put ''k3'' ''c'']\<rparr>)
     = Blocks (example_memory\<lparr>put_queue := [], update_lock := True\<rparr>)"
    using local_put_worker_Put [OF q0, of example_lru_memory] 1 w1 by (simp add: example_memory_def)
  have 3: "LMCLocalBackend_put_blocking example_lru_memory ''k3'' ''c''
        (example_memory\<lparr>put_queue := [], update_lock := True\<rparr>)
     = Returns () (example_memory\<lparr>dict := [(''k3'', ''c'')], put_queue := [], update_lock := True\<rparr>)"
    by (simp add: example_defs eval_defs)
  from w 2 3 show ?thesis by simp
qed

text \<open>
  C7 says that \<open>close\<close> drains the queue and joins the worker. On the memory backend with
  the same queue, \<open>close\<close> appends the end signal and joins a worker that waits for ever on
  the mutex: \<open>close\<close> does not return, \<open>k3\<close> is never applied and the end signal is
  never taken from the queue.
\<close>

theorem memory_close_never_returns:
  "put_thread_alive (example_memory\<lparr>put_queue := [Put ''k2'' ''abc'', Put ''k3'' ''c'']\<rparr>)
   \<and> LMCLocalBackend_close example_lru_memory
        (example_memory\<lparr>put_queue := [Put ''k2'' ''abc'', Put ''k3'' ''c'']\<rparr>)
     = Blocks (example_memory\<lparr>put_queue := [LocalBackendEndSignal], update_lock := True\<rparr>)
   \<and> \<not> LMCLocalBackend_contains ''k3''
        (example_memory\<lparr>put_queue := [LocalBackendEndSignal], update_lock := True\<rparr>)"
proof -
  have 1: "LMCLocalBackend_put_nonblocking example_lru_memory ''k2'' ''abc''
             (example_memory\<lparr>put_queue := [Put ''k3'' ''c'', LocalBackendEndSignal]\<rparr>)
           = Returns () (example_memory\<lparr>put_queue := [Put ''k3'' ''c'', LocalBackendEndSignal],
                           update_lock := True\<rparr>)"
    by (simp add: example_defs eval_defs)
  have 2: "LMCLocalBackend_put_nonblocking example_lru_memory ''k3'' ''c''
             (example_memory\<lparr>put_queue := [LocalBackendEndSignal], update_lock := True\<rparr>)
           = Blocks (example_memory\<lparr>put_queue := [LocalBackendEndSignal], update_lock := True\<rparr>)"
    by (simp add: example_defs eval_defs)
  have q1: "put_queue (example_memory\<lparr>put_queue := [Put ''k3'' ''c'', LocalBackendEndSignal],
                          update_lock := True\<rparr>)
              = Put ''k3'' ''c'' # [LocalBackendEndSignal]"
    and q0: "put_queue (example_memory\<lparr>put_queue :=
                          [Put ''k2'' ''abc'', Put ''k3'' ''c'', LocalBackendEndSignal]\<rparr>)
              = Put ''k2'' ''abc'' # [Put ''k3'' ''c'', LocalBackendEndSignal]"
    by simp_all
  have w1: "LMCLocalBackend_put_worker example_lru_memory
              (example_memory\<lparr>put_queue := [Put ''k3'' ''c'', LocalBackendEndSignal],
                 update_lock := True\<rparr>)
            = Blocks (example_memory\<lparr>put_queue := [LocalBackendEndSignal], update_lock := True\<rparr>)"
    using local_put_worker_Put [OF q1, of example_lru_memory] 2
    by (simp add: example_memory_def)
  have w: "LMCLocalBackend_put_worker example_lru_memory
      (example_memory\<lparr>put_queue := [Put ''k2'' ''abc'', Put ''k3'' ''c'', LocalBackendEndSignal]\<rparr>)
     = Blocks (example_memory\<lparr>put_queue := [LocalBackendEndSignal], update_lock := True\<rparr>)"
    using local_put_worker_Put [OF q0, of example_lru_memory] 1 w1
    by (simp add: example_memory_def)
  show ?thesis
    using w
    by (simp add: LMCLocalBackend_close_def LMCLocalBackend_contains_def od_contains_def
        od_keys_def example_memory_def)
qed

section \<open>The worker while no put is rejected\<close>

text \<open>
  With the mutex free, the queued path and the blocking path of the memory backend leave the
  same catalog. If every queued item is admitted, the worker applies the queue in order and
  ends at the end signal, with the state the blocking puts would give; \<open>close\<close> then
  returns and a second \<open>close\<close> changes nothing. The disk worker calls \<open>put_blocking\<close>
  itself and drains its queue whenever each of these puts returns, rejected or not.
\<close>

lemma local_remove_frame:
  assumes "\<And>s. dict (f s) = dict s" and "\<And>s d. f (s\<lparr>dict := d\<rparr>) = (f s)\<lparr>dict := d\<rparr>"
  shows "LMCLocalBackend_remove k (f s) = map_state f (LMCLocalBackend_remove k s)"
  by (simp add: LMCLocalBackend_remove_def assms)

lemma evict_caches_local_frame:
  assumes "\<And>s. dict (f s) = dict s" and "\<And>s d. f (s\<lparr>dict := d\<rparr>) = (f s)\<lparr>dict := d\<rparr>"
  shows "evict_caches LMCLocalBackend_remove ks (f s)
           = map_state f (evict_caches LMCLocalBackend_remove ks s)"
proof (induction ks arbitrary: s)
  case Nil
  then show ?case by simp
next
  case (Cons k ks)
  show ?case
    by (cases "LMCLocalBackend_remove k s")
      (simp_all add: local_remove_frame [where f = f, OF assms] Cons.IH)
qed

lemma put_nonblocking_dict_eq_put_blocking:
  assumes "\<not> update_lock s"
  shows "dict (state_of (LMCLocalBackend_put_nonblocking up key val s))
           = dict (state_of (LMCLocalBackend_put_blocking up key val s))"
proof -
  have f: "evict_caches LMCLocalBackend_remove ks (s\<lparr>update_lock := True\<rparr>)
             = map_state (\<lambda>t. t\<lparr>update_lock := True\<rparr>)
                 (evict_caches LMCLocalBackend_remove ks s)" for ks
    by (rule evict_caches_local_frame [where f = "\<lambda>t. t\<lparr>update_lock := True\<rparr>"]) simp_all
  obtain evs st where up: "up (dict s) val = (evs, st)" by (cases "up (dict s) val")
  show ?thesis
    using assms up
    by (cases "evict_caches LMCLocalBackend_remove evs s")
      (simp_all add: LMCLocalBackend_put_nonblocking_def LMCLocalBackend_put_blocking_def f)
qed

lemma put_nonblocking_admitted:
  assumes l: "\<not> update_lock s" and a: "snd (up (dict s) val) \<noteq> ILLEGAL"
      and p: "LMCLocalBackend_put_blocking up key val s = Returns () s'"
  shows "LMCLocalBackend_put_nonblocking up key val (s\<lparr>put_queue := q\<rparr>)
           = Returns () (s'\<lparr>put_queue := q\<rparr>) \<and> \<not> update_lock s'"
proof -
  obtain evs st where up: "up (dict s) val = (evs, st)" by (cases "up (dict s) val")
  with a have st: "st \<noteq> ILLEGAL" by simp
  from p up st obtain s2 where e: "evict_caches LMCLocalBackend_remove evs s = Returns () s2"
    and s': "s' = s2\<lparr>dict := od_setitem key val (dict s2)\<rparr>"
    by (auto simp: LMCLocalBackend_put_blocking_def split: outcome.splits)
  from evict_caches_local_Returns [OF e] l have l2: "\<not> update_lock s2" by simp
  have "evict_caches LMCLocalBackend_remove evs (s\<lparr>put_queue := q, update_lock := True\<rparr>)
          = Returns () (s2\<lparr>put_queue := q, update_lock := True\<rparr>)"
    using evict_caches_local_frame [where f = "\<lambda>t. t\<lparr>put_queue := q, update_lock := True\<rparr>"
        and ks = evs and s = s] e
    by simp
  with l up st s' l2 show ?thesis
    by (simp add: LMCLocalBackend_put_nonblocking_def)
qed

lemma local_put_worker_drains:
  assumes "\<not> update_lock s" and "puts_blocking up kvs s = Some t"
  shows "LMCLocalBackend_put_worker up
           (s\<lparr>put_queue := map (\<lambda>(k, v). Put k v) kvs @ LocalBackendEndSignal # rest\<rparr>)
         = Returns () (t\<lparr>put_queue := rest, put_thread_alive := False\<rparr>)"
  using assms
proof (induction kvs arbitrary: s)
  case Nil
  then show ?case by (simp add: local_put_worker_End)
next
  case (Cons kv kvs)
  obtain key val where kv: "kv = (key, val)" by (cases kv)
  let ?q = "map (\<lambda>(k, v). Put k v) kvs @ LocalBackendEndSignal # rest"
  from Cons.prems(2) kv obtain s' where a: "snd (up (dict s) val) \<noteq> ILLEGAL"
    and p: "LMCLocalBackend_put_blocking up key val s = Returns () s'"
    and r: "puts_blocking up kvs s' = Some t"
    by (auto split: if_splits outcome.splits)
  from put_nonblocking_admitted [OF Cons.prems(1) a p, of ?q]
  have n: "LMCLocalBackend_put_nonblocking up key val (s\<lparr>put_queue := ?q\<rparr>)
             = Returns () (s'\<lparr>put_queue := ?q\<rparr>)"
    and l': "\<not> update_lock s'" by simp_all
  have "put_queue (s\<lparr>put_queue := map (\<lambda>(k, v). Put k v) (kv # kvs) @ LocalBackendEndSignal # rest\<rparr>)
          = Put key val # ?q"
    by (simp add: kv)
  from local_put_worker_Put [OF this, of up] n Cons.IH [OF l' r]
  show ?case by simp
qed

lemma local_close_drains:
  assumes "\<not> update_lock s" and "put_thread_alive s"
      and "put_queue s = map (\<lambda>(k, v). Put k v) kvs"
      and "puts_blocking up kvs s = Some t"
  shows "LMCLocalBackend_close up s = Returns () (t\<lparr>put_queue := [], put_thread_alive := False\<rparr>)"
    and "LMCLocalBackend_close up (t\<lparr>put_queue := [], put_thread_alive := False\<rparr>)
           = Returns () (t\<lparr>put_queue := [], put_thread_alive := False\<rparr>)"
proof -
  from local_put_worker_drains [OF assms(1,4), of "[]"] assms(2,3)
  show "LMCLocalBackend_close up s = Returns () (t\<lparr>put_queue := [], put_thread_alive := False\<rparr>)"
    by (simp add: LMCLocalBackend_close_def)
  show "LMCLocalBackend_close up (t\<lparr>put_queue := [], put_thread_alive := False\<rparr>)
           = Returns () (t\<lparr>put_queue := [], put_thread_alive := False\<rparr>)"
    by (simp add: LMCLocalBackend_close_def)
qed

lemma disk_put_worker_End:
  "put_queue s = LocalBackendEndSignal # rest \<Longrightarrow>
     LMCLocalDiskBackend_put_worker ts up s
       = Returns () (s\<lparr>put_queue := rest, put_thread_alive := False\<rparr>)"
  by (subst LMCLocalDiskBackend_put_worker.simps) simp

lemma disk_put_worker_Put:
  "put_queue s = Put key val # rest \<Longrightarrow>
     LMCLocalDiskBackend_put_worker ts up s =
       (case LMCLocalDiskBackend_put_blocking ts up key val (s\<lparr>put_queue := rest\<rparr>) of
          Returns _ s' \<Rightarrow> LMCLocalDiskBackend_put_worker ts up s'
        | Raises e s' \<Rightarrow> Raises e (s'\<lparr>put_thread_alive := False\<rparr>)
        | Blocks s' \<Rightarrow> Blocks s')"
  by (subst LMCLocalDiskBackend_put_worker.simps) simp

lemma disk_remove_queue:
  "LMCLocalDiskBackend_remove k (s\<lparr>put_queue := q\<rparr>)
     = map_state (\<lambda>t. t\<lparr>put_queue := q\<rparr>) (LMCLocalDiskBackend_remove k s)"
  by (simp add: LMCLocalDiskBackend_remove_def Let_def split: option.splits)

lemma evict_caches_disk_queue:
  "evict_caches LMCLocalDiskBackend_remove ks (s\<lparr>put_queue := q\<rparr>)
     = map_state (\<lambda>t. t\<lparr>put_queue := q\<rparr>) (evict_caches LMCLocalDiskBackend_remove ks s)"
proof (induction ks arbitrary: s)
  case Nil
  then show ?case by simp
next
  case (Cons k ks)
  show ?case
    by (cases "LMCLocalDiskBackend_remove k s") (simp_all add: disk_remove_queue Cons.IH)
qed

lemma disk_put_blocking_queue:
  "LMCLocalDiskBackend_put_blocking ts up key val (s\<lparr>put_queue := q\<rparr>)
     = map_state (\<lambda>t. t\<lparr>put_queue := q\<rparr>) (LMCLocalDiskBackend_put_blocking ts up key val s)"
proof -
  obtain evs st where up: "up (dict s) val = (evs, st)" by (cases "up (dict s) val")
  show ?thesis
    using up
    by (cases "evict_caches LMCLocalDiskBackend_remove evs s")
      (simp_all add: LMCLocalDiskBackend_put_blocking_def evict_caches_disk_queue Let_def)
qed

lemma disk_put_worker_drains:
  assumes "disk_puts_blocking ts up kvs s = Some t"
  shows "LMCLocalDiskBackend_put_worker ts up
           (s\<lparr>put_queue := map (\<lambda>(k, v). Put k v) kvs @ LocalBackendEndSignal # rest\<rparr>)
         = Returns () (t\<lparr>put_queue := rest, put_thread_alive := False\<rparr>)"
  using assms
proof (induction kvs arbitrary: s)
  case Nil
  then show ?case by (simp add: disk_put_worker_End)
next
  case (Cons kv kvs)
  obtain key val where kv: "kv = (key, val)" by (cases kv)
  let ?q = "map (\<lambda>(k, v). Put k v) kvs @ LocalBackendEndSignal # rest"
  from Cons.prems kv obtain s' where p: "LMCLocalDiskBackend_put_blocking ts up key val s = Returns () s'"
    and r: "disk_puts_blocking ts up kvs s' = Some t"
    by (auto split: outcome.splits)
  have n: "LMCLocalDiskBackend_put_blocking ts up key val (s\<lparr>put_queue := ?q\<rparr>)
             = Returns () (s'\<lparr>put_queue := ?q\<rparr>)"
    by (simp add: disk_put_blocking_queue p)
  have "put_queue (s\<lparr>put_queue := map (\<lambda>(k, v). Put k v) (kv # kvs) @ LocalBackendEndSignal # rest\<rparr>)
          = Put key val # ?q"
    by (simp add: kv)
  from disk_put_worker_Put [OF this, of ts up] n Cons.IH [OF r]
  show ?case by simp
qed

lemma disk_close_drains:
  assumes "put_thread_alive s" and "put_queue s = map (\<lambda>(k, v). Put k v) kvs"
      and "disk_puts_blocking ts up kvs s = Some t"
  shows "LMCLocalDiskBackend_close ts up s
           = Returns () (t\<lparr>put_queue := [], put_thread_alive := False\<rparr>)"
    and "LMCLocalDiskBackend_close ts up (t\<lparr>put_queue := [], put_thread_alive := False\<rparr>)
           = Returns () (t\<lparr>put_queue := [], put_thread_alive := False\<rparr>)"
proof -
  from disk_put_worker_drains [OF assms(3), of "[]"] assms(1,2)
  show "LMCLocalDiskBackend_close ts up s
           = Returns () (t\<lparr>put_queue := [], put_thread_alive := False\<rparr>)"
    by (simp add: LMCLocalDiskBackend_close_def)
  show "LMCLocalDiskBackend_close ts up (t\<lparr>put_queue := [], put_thread_alive := False\<rparr>)
           = Returns () (t\<lparr>put_queue := [], put_thread_alive := False\<rparr>)"
    by (simp add: LMCLocalDiskBackend_close_def)
qed

end
